theory Spec2Isabelle
  imports Complex_Main "HOL-Library.Log_Nat"
begin

section \<open>JavaScript values and string helpers\<close>

text \<open>
  The renderer is a Node.js script (\<^verbatim>\<open>renderer/render-cli.js\<close>).  Strings are modelled as
  \<^typ>\<open>string\<close>, a finite JavaScript number by its value, a \<^typ>\<open>real\<close> (the product of
  two numbers is rounded to a double, see below), an \<^verbatim>\<open>Error\<close> object by its name,
  message and stack.
\<close>

datatype js_error = JsError (err_name: string) (message: string) (stack: string)

text \<open>
  The values that a property of the \<^verbatim>\<open>args\<close> object can hold: a string, \<^verbatim>\<open>true\<close>,
  the array of positional arguments, or nothing (\<^verbatim>\<open>undefined\<close>).
\<close>

datatype js_value = JUndefined | JTrue | JStr string | JArr "string list"

fun truthy :: "js_value \<Rightarrow> bool" where
  "truthy JUndefined = False"
| "truthy JTrue = True"
| "truthy (JStr s) = (s \<noteq> [])"
| "truthy (JArr xs) = True"

text \<open>\<^verbatim>\<open>a || b\<close> and \<^verbatim>\<open>a && b\<close> on values.\<close>

definition js_or :: "js_value \<Rightarrow> js_value \<Rightarrow> js_value" where
  "js_or a b = (if truthy a then a else b)"

definition js_and :: "js_value \<Rightarrow> js_value \<Rightarrow> js_value" where
  "js_and a b = (if truthy a then b else a)"

text \<open>\<^verbatim>\<open>v[0]\<close>: the first element of an array, the first character of a string.\<close>

fun index0 :: "js_value \<Rightarrow> js_value" where
  "index0 (JArr (x # xs)) = JStr x"
| "index0 (JStr (c # cs)) = JStr [c]"
| "index0 v = JUndefined"

text \<open>
  The own properties of a plain object.  Assigning a string or a boolean to the property
  \<^verbatim>\<open>__proto__\<close> of a plain object calls the inherited setter, which ignores a value that
  is not an object: no property is created.
\<close>

type_synonym js_object = "string \<rightharpoonup> js_value"

definition prop_get :: "js_object \<Rightarrow> string \<Rightarrow> js_value" where
  "prop_get obj k = (case obj k of None \<Rightarrow> JUndefined | Some v \<Rightarrow> v)"

definition prop_set :: "js_object \<Rightarrow> string \<Rightarrow> js_value \<Rightarrow> js_object" where
  "prop_set obj k v = (if k = ''__proto__'' then obj else obj(k \<mapsto> v))"

definition startsWith :: "string \<Rightarrow> string \<Rightarrow> bool" where
  "startsWith s p = (take (length p) s = p)"

text \<open>\<^verbatim>\<open>s.indexOf(c)\<close>: the first position of the character, or -1.\<close>

fun indexOf :: "string \<Rightarrow> char \<Rightarrow> int" where
  "indexOf [] c = -1"
| "indexOf (x # xs) c =
     (if x = c then 0 else (let i = indexOf xs c in if i < 0 then -1 else i + 1))"

text \<open>\<^verbatim>\<open>s.slice(a, b)\<close> and \<^verbatim>\<open>s.slice(a)\<close> for indices that are not negative.\<close>

definition slice :: "string \<Rightarrow> nat \<Rightarrow> nat \<Rightarrow> string" where
  "slice s a b = take (b - a) (drop a s)"

definition slice_from :: "string \<Rightarrow> nat \<Rightarrow> string" where
  "slice_from s a = drop a s"

definition is_quote :: "char \<Rightarrow> bool" where
  "is_quote c = (c = CHR 0x22 \<or> c = CHR 0x27)"

text \<open>
  \<^verbatim>\<open>value.replace(/^["']|["']$/g, '')\<close>: the global replacement removes a quote
  character at the start of the string and, scanning on, a quote character at its end.
\<close>

definition strip_trailing_quote :: "string \<Rightarrow> string" where
  "strip_trailing_quote s = (if s \<noteq> [] \<and> is_quote (last s) then butlast s else s)"

definition strip_quotes :: "string \<Rightarrow> string" where
  "strip_quotes s =
     (if s \<noteq> [] \<and> is_quote (hd s) then strip_trailing_quote (tl s)
      else strip_trailing_quote s)"

section \<open>parseArgs\<close>

text \<open>
  The body of the \<^verbatim>\<open>forEach\<close> callback.  \<^verbatim>\<open>args._positional.push(arg)\<close> throws a
  \<^verbatim>\<open>TypeError\<close> when an option named \<^verbatim>\<open>_positional\<close> has stored a truthy value that is
  not an array.
\<close>

definition parse_arg :: "js_object \<Rightarrow> string \<Rightarrow> js_error + js_object" where
  "parse_arg args arg =
     (if startsWith arg ''--'' then
        (let eqIndex = indexOf arg CHR ''='' in
         if eqIndex > 0 then
           (let key = slice arg 2 (nat eqIndex);
                val = slice_from arg (nat (eqIndex + 1))
            in Inr (prop_set args key (JStr (strip_quotes val))))
         else Inr (prop_set args (slice_from arg 2) JTrue))
      else if \<not> truthy (prop_get args ''_positional'') then
        Inr (prop_set args ''_positional'' (JArr [arg]))
      else
        (case prop_get args ''_positional'' of
           JArr xs \<Rightarrow> Inr (prop_set args ''_positional'' (JArr (xs @ [arg])))
         | _ \<Rightarrow> Inl (JsError ''TypeError'' ''args._positional.push is not a function'' [])))"

fun parse_loop :: "js_object \<Rightarrow> string list \<Rightarrow> js_error + js_object" where
  "parse_loop args [] = Inr args"
| "parse_loop args (arg # rest) =
     (case parse_arg args arg of
        Inl e \<Rightarrow> Inl e
      | Inr args' \<Rightarrow> parse_loop args' rest)"

text \<open>\<^verbatim>\<open>process.argv.slice(2).forEach(...)\<close> on an empty object.\<close>

definition parseArgs :: "string list \<Rightarrow> js_error + js_object" where
  "parseArgs argv = parse_loop Map.empty (drop 2 argv)"

text \<open>\<^verbatim>\<open>args.input || (args._positional && args._positional[0])\<close>\<close>

definition inputPath_of :: "js_object \<Rightarrow> js_value" where
  "inputPath_of args =
     js_or (prop_get args ''input'')
           (js_and (prop_get args ''_positional'') (index0 (prop_get args ''_positional'')))"

text \<open>An argument that does not start with two hyphens is positional.\<close>

definition positional :: "string \<Rightarrow> bool" where
  "positional arg = (\<not> startsWith arg ''--'')"

text \<open>The property that an option argument assigns, if it is an option.\<close>

definition option_key :: "string \<Rightarrow> string option" where
  "option_key arg =
     (if startsWith arg ''--'' then
        (let eqIndex = indexOf arg CHR ''='' in
         if eqIndex > 0 then Some (slice arg 2 (nat eqIndex)) else Some (slice_from arg 2))
      else None)"

section \<open>The path module\<close>

text \<open>
  The script runs on macOS and Linux (\<^verbatim>\<open>render.sh\<close>), so \<^verbatim>\<open>path\<close> is Node's POSIX
  implementation.  Its functions scan the characters of a path; here they work on the
  segments between slashes, which gives the same results.
\<close>

fun split_on :: "char \<Rightarrow> string \<Rightarrow> string list" where
  "split_on c [] = [[]]"
| "split_on c (x # xs) =
     (if x = c then [] # split_on c xs
      else (case split_on c xs of
              [] \<Rightarrow> [[x]]
            | s # ss \<Rightarrow> (x # s) # ss))"

fun join_with :: "string \<Rightarrow> string list \<Rightarrow> string" where
  "join_with sep [] = []"
| "join_with sep [x] = x"
| "join_with sep (x # y # ys) = x @ sep @ join_with sep (y # ys)"

text \<open>
  \<^verbatim>\<open>normalizeString\<close>: an empty segment and \<^verbatim>\<open>.\<close> are dropped; \<^verbatim>\<open>..\<close> removes the
  segment before it, and is kept only above the root of a relative path.
\<close>

definition normalize_step :: "bool \<Rightarrow> string list \<Rightarrow> string \<Rightarrow> string list" where
  "normalize_step allowAboveRoot res seg =
     (if seg = [] \<or> seg = ''.'' then res
      else if seg = ''..'' then
        (if res \<noteq> [] \<and> last res \<noteq> ''..'' then butlast res
         else if allowAboveRoot then res @ [''..'']
         else res)
      else res @ [seg])"

definition normalizeString :: "string \<Rightarrow> bool \<Rightarrow> string" where
  "normalizeString p allowAboveRoot =
     join_with ''/'' (foldl (normalize_step allowAboveRoot) [] (split_on CHR ''/'' p))"

definition path_normalize :: "string \<Rightarrow> string" where
  "path_normalize p =
     (if p = [] then ''.''
      else
        (let isAbsolute = (hd p = CHR ''/'');
             trailingSeparator = (last p = CHR ''/'');
             q = normalizeString p (\<not> isAbsolute)
         in if q = [] then (if isAbsolute then ''/'' else if trailingSeparator then ''./'' else ''.'')
            else (if isAbsolute then ''/'' else []) @ q @ (if trailingSeparator then ''/'' else [])))"

definition path_join :: "string list \<Rightarrow> string" where
  "path_join parts =
     (let joined = filter (\<lambda>a. a \<noteq> []) parts
      in if joined = [] then ''.'' else path_normalize (join_with ''/'' joined))"

text \<open>
  \<^verbatim>\<open>path.resolve(...parts)\<close>: the arguments are taken from the right until an absolute
  one is met, the working directory (an absolute path) coming last.  The list given to
  \<open>resolve_acc\<close> is in that order.
\<close>

fun resolve_acc :: "string list \<Rightarrow> string \<times> bool" where
  "resolve_acc [] = ([], False)"
| "resolve_acc (p # ps) =
     (if p = [] then resolve_acc ps
      else if hd p = CHR ''/'' then (p @ ''/'', True)
      else (let (r, a) = resolve_acc ps in (r @ p @ ''/'', a)))"

definition path_resolve :: "string \<Rightarrow> string list \<Rightarrow> string" where
  "path_resolve cwd parts =
     (let (resolvedPath, resolvedAbsolute) = resolve_acc (rev parts @ [cwd]);
          q = normalizeString resolvedPath (\<not> resolvedAbsolute)
      in if resolvedAbsolute then ''/'' @ q
         else if q \<noteq> [] then q else ''.'')"

text \<open>
  \<^verbatim>\<open>path.dirname\<close>: scanning from the right down to index 1, the slashes at the end are
  skipped, then the name, and the path is cut at the slash found there.
\<close>

definition path_dirname :: "string \<Rightarrow> string" where
  "path_dirname p =
     (if p = [] then ''.''
      else
        (let hasRoot = (hd p = CHR ''/'');
             r = dropWhile (\<lambda>c. c \<noteq> CHR ''/'') (dropWhile (\<lambda>c. c = CHR ''/'') (rev (tl p)))
         in if r = [] then (if hasRoot then ''/'' else ''.'')
            else if hasRoot \<and> length r = 1 then ''//''
            else take (length r) p))"

definition endsWith :: "string \<Rightarrow> string \<Rightarrow> bool" where
  "endsWith s e = (length e \<le> length s \<and> drop (length s - length e) s = e)"

text \<open>
  \<^verbatim>\<open>path.basename(p, ext)\<close>: the last name of the path, without \<open>ext\<close> when the name ends
  with it and is longer.  (When the name is a proper end of \<open>ext\<close>, Node leaves the slashes
  that follow the name in the result.)
\<close>

definition path_basename :: "string \<Rightarrow> string \<Rightarrow> string" where
  "path_basename p ext =
     (let r = rev p;
          trailing = takeWhile (\<lambda>c. c = CHR ''/'') r;
          base = rev (takeWhile (\<lambda>c. c \<noteq> CHR ''/'') (dropWhile (\<lambda>c. c = CHR ''/'') r))
      in if ext \<noteq> [] \<and> length ext \<le> length p then
           (if ext = p then []
            else if endsWith base ext then
              (if base = ext then base else take (length base - length ext) base)
            else if endsWith ext base then base @ trailing
            else base)
         else base)"

section \<open>Dates\<close>

text \<open>
  \<^verbatim>\<open>new Date()\<close> is the clock of the machine, read here as its UTC fields.
  \<^verbatim>\<open>toISOString\<close> prints \<^verbatim>\<open>YYYY-MM-DDTHH:mm:ss.sssZ\<close>, and a year after 9999 with a
  sign and six digits.
\<close>

record utc_time =
  year :: nat
  month :: nat
  day :: nat
  hours :: nat
  minutes :: nat
  seconds :: nat
  millis :: nat

definition digit_char :: "nat \<Rightarrow> char" where
  "digit_char d = ''0123456789'' ! d"

fun digits :: "nat \<Rightarrow> string" where
  "digits n = (if n < 10 then [digit_char n] else digits (n div 10) @ [digit_char (n mod 10)])"

definition pad :: "nat \<Rightarrow> nat \<Rightarrow> string" where
  "pad w n = replicate (w - length (digits n)) CHR ''0'' @ digits n"

definition toISOString :: "utc_time \<Rightarrow> string" where
  "toISOString t =
     (if year t \<le> 9999 then pad 4 (year t) else ''+'' @ pad 6 (year t))
     @ ''-'' @ pad 2 (month t) @ ''-'' @ pad 2 (day t)
     @ ''T'' @ pad 2 (hours t) @ '':'' @ pad 2 (minutes t) @ '':'' @ pad 2 (seconds t)
     @ ''.'' @ pad 3 (millis t) @ ''Z''"

text \<open>\<^verbatim>\<open>.replace(/[:.]/g, '-')\<close>\<close>

definition replace_colon_period :: "string \<Rightarrow> string" where
  "replace_colon_period s = map (\<lambda>c. if c = CHR '':'' \<or> c = CHR ''.'' then CHR ''-'' else c) s"

section \<open>generateOutputPath\<close>

definition generateOutputPath :: "string \<Rightarrow> utc_time \<Rightarrow> string" where
  "generateOutputPath inputPath now =
     (let dir = path_dirname inputPath;
          baseName = path_basename inputPath ''.tsx'';
          timestamp = slice (replace_colon_period (toISOString now)) 0 19
      in path_join [dir, baseName @ ''_'' @ timestamp @ ''.mp4''])"

section \<open>JavaScript numbers\<close>

text \<open>
  A JavaScript number is an IEEE 754 double.  The numbers that a run is given (the fields
  of the descriptor, the progress values) are finite doubles, modelled by their values.
  The result of an operation is again a double: a finite one, or an infinity when the
  operation overflows.  (\<^verbatim>\<open>NaN\<close> is never the product of two finite numbers, and the sign
  of zero is not kept.)
\<close>

datatype number = Finite real | PosInfinity | NegInfinity

text \<open>The binary exponent of \<open>y > 0\<close>: the \<open>e\<close> with \<open>2 ^ e \<le> y < 2 ^ (e + 1)\<close>.\<close>

definition exponent_of :: "real \<Rightarrow> int" where
  "exponent_of y =
     (if 1 \<le> y then bitlen \<lfloor>y\<rfloor> - 1 else - bitlen (\<lceil>1 / y\<rceil> - 1))"

text \<open>The nearest integer, a half going to the even neighbour.\<close>

definition round_half_even :: "real \<Rightarrow> int" where
  "round_half_even m =
     (let f = \<lfloor>m\<rfloor>; r = m - of_int f
      in if r < 1 / 2 then f
         else if 1 / 2 < r then f + 1
         else if even f then f else f + 1)"

text \<open>
  The doubles around \<open>x\<close> are the multiples of \<open>2\<close> to the power \<open>ulp_exponent x\<close>: a
  double has 53 significant bits, and its exponent is at least \<open>-1022\<close>.
\<close>

definition ulp_exponent :: "real \<Rightarrow> int" where
  "ulp_exponent x = max (exponent_of \<bar>x\<bar>) (- 1022) - 52"

text \<open>Rounding to nearest, ties to even, with the exponent not bounded above.\<close>

definition nearest_double :: "real \<Rightarrow> real" where
  "nearest_double x =
     (if x = 0 then 0
      else (let ulp = 2 powi ulp_exponent x
            in of_int (round_half_even (x / ulp)) * ulp))"

text \<open>The double that a real result is rounded to; from \<open>2 ^ 1024\<close> on it is an infinity.\<close>

definition to_double :: "real \<Rightarrow> number" where
  "to_double x =
     (let d = nearest_double x
      in if 2 ^ 1024 \<le> d then PosInfinity
         else if d \<le> - (2 ^ 1024) then NegInfinity
         else Finite d)"

text \<open>\<^verbatim>\<open>a * b\<close> on two finite numbers: the exact product, rounded.\<close>

definition js_multiply :: "real \<Rightarrow> real \<Rightarrow> number" where
  "js_multiply a b = to_double (a * b)"

text \<open>
  \<^verbatim>\<open>Math.round\<close>: the nearest integer, a half going up.  The nearest integer of a double
  is a double, so nothing is rounded twice.
\<close>

fun Math_round :: "number \<Rightarrow> number" where
  "Math_round (Finite x) = Finite (of_int \<lfloor>x + 1 / 2\<rfloor>)"
| "Math_round PosInfinity = PosInfinity"
| "Math_round NegInfinity = NegInfinity"

section \<open>Collaborators, console and process\<close>

text \<open>The Composition Descriptor that \<^verbatim>\<open>extractCompositionConfig\<close> returns.\<close>

record config =
  config_id :: string
  durationInSeconds :: real
  fps :: real
  width :: real
  height :: real

text \<open>The composition that \<^verbatim>\<open>selectComposition\<close> returns, and the options of \<^verbatim>\<open>renderMedia\<close>.\<close>

record composition =
  comp_id :: string
  comp_durationInFrames :: number
  comp_fps :: real
  comp_width :: real
  comp_height :: real
  comp_props :: string

record render_options =
  composition :: composition
  serveUrl :: string
  codec :: string
  outputLocation :: string

text \<open>A template literal is kept as its pieces: text, and numbers not yet printed.\<close>

datatype part = T string | N number

type_synonym msg = "part list"

text \<open>
  What a run does to the outside: the calls of \<^verbatim>\<open>lib/console\<close> and \<^verbatim>\<open>console.log\<close>,
  and the calls of the collaborators, in order.
\<close>

datatype event =
    Banner msg
  | Log "msg list"
  | ErrorMsg msg
  | SuccessMsg msg
  | ProgressMsg msg
  | ClearProgress
  | ConsoleLog msg
  | Call_validateTsxFile string
  | Call_extractCompositionConfig string
  | Call_ensureBrowser
  | Call_createTempProject string config
  | Call_bundle string string
  | Call_selectComposition string string
  | Call_renderMedia render_options
  | Call_cleanupTempProject string

text \<open>
  The collaborators are not part of the script: a run is given what each of them answers.
  A collaborator that fails throws an \<^verbatim>\<open>Error\<close> object, with a string as its message.
  A collaborator that reports progress gives the values of its callbacks, then its result.
  \<open>cwd\<close> is \<^verbatim>\<open>process.cwd()\<close>, \<open>script_dirname\<close> is \<^verbatim>\<open>__dirname\<close>, \<open>clock\<close> is what
  \<^verbatim>\<open>new Date()\<close> reads.
\<close>

record env =
  cwd :: string
  script_dirname :: string
  clock :: utc_time
  validateTsxFile :: "string \<Rightarrow> js_error option"
  extractCompositionConfig :: "string \<Rightarrow> js_error + config"
  ensureBrowser :: "real list \<times> js_error option"
  createTempProject :: "string \<Rightarrow> config \<Rightarrow> js_error + string"
  bundleProject :: "string \<Rightarrow> real list \<times> (js_error + string)"
  selectComposition :: "string \<Rightarrow> string \<Rightarrow> js_error + composition"
  renderMedia :: "render_options \<Rightarrow> real list \<times> js_error option"

text \<open>The state of a run: what it has done so far, and the variable \<^verbatim>\<open>tempProjectDir\<close>.\<close>

record state =
  trace :: "event list"
  tempProjectDir :: "string option"

text \<open>
  A statement ends normally, throws, or ends the process: \<^verbatim>\<open>process.exit(code)\<close> does
  not return, and nothing of the script runs after it.
\<close>

datatype 'a outcome = Normal 'a | Thrown js_error | Exited int

type_synonym 'a prog = "state \<Rightarrow> 'a outcome \<times> state"

definition ret :: "'a \<Rightarrow> 'a prog" where
  "ret x = (\<lambda>s. (Normal x, s))"

definition throw :: "js_error \<Rightarrow> 'a prog" where
  "throw e = (\<lambda>s. (Thrown e, s))"

definition process_exit :: "int \<Rightarrow> 'a prog" where
  "process_exit c = (\<lambda>s. (Exited c, s))"

definition andThen :: "'a prog \<Rightarrow> ('a \<Rightarrow> 'b prog) \<Rightarrow> 'b prog" where
  "andThen m f =
     (\<lambda>s. case m s of
            (Normal x, s') \<Rightarrow> f x s'
          | (Thrown e, s') \<Rightarrow> (Thrown e, s')
          | (Exited c, s') \<Rightarrow> (Exited c, s'))"

fun do_all :: "unit prog list \<Rightarrow> unit prog" where
  "do_all [] = ret ()"
| "do_all (m # ms) = andThen m (\<lambda>_. do_all ms)"

definition emit :: "event \<Rightarrow> unit prog" where
  "emit ev = (\<lambda>s. (Normal (), s\<lparr>trace := trace s @ [ev]\<rparr>))"

definition lift :: "js_error + 'a \<Rightarrow> 'a prog" where
  "lift r = (case r of Inl e \<Rightarrow> throw e | Inr x \<Rightarrow> ret x)"

definition lift_unit :: "js_error option \<Rightarrow> unit prog" where
  "lift_unit r = (case r of Some e \<Rightarrow> throw e | None \<Rightarrow> ret ())"

text \<open>\<^verbatim>\<open>try { m } catch (err) { h err }\<close>: only a thrown error enters the handler.\<close>

definition try_catch :: "'a prog \<Rightarrow> (js_error \<Rightarrow> 'a prog) \<Rightarrow> 'a prog" where
  "try_catch m h =
     (\<lambda>s. case m s of
            (Thrown e, s') \<Rightarrow> h e s'
          | other \<Rightarrow> other)"

text \<open>
  \<^verbatim>\<open>try { m } finally { fin }\<close>: the block \<open>fin\<close> runs when \<open>m\<close> ends normally or throws,
  and the outcome of \<open>m\<close> stands unless \<open>fin\<close> itself throws or exits.  When \<open>m\<close> has ended
  the process, \<open>fin\<close> does not run.
\<close>

definition try_finally :: "'a prog \<Rightarrow> unit prog \<Rightarrow> 'a prog" where
  "try_finally m fin =
     (\<lambda>s. case m s of
            (Exited c, s') \<Rightarrow> (Exited c, s')
          | (r, s') \<Rightarrow>
              (case fin s' of
                 (Normal _, s'') \<Rightarrow> (r, s'')
               | (Thrown e, s'') \<Rightarrow> (Thrown e, s'')
               | (Exited c, s'') \<Rightarrow> (Exited c, s'')))"

text \<open>
  The progress callbacks: each value delivered prints
  \<^verbatim>\<open>progress(`<label>${Math.round(p * 100)}%`)\<close>.
\<close>

definition progress_event :: "string \<Rightarrow> real \<Rightarrow> event" where
  "progress_event label p = ProgressMsg [T label, N (Math_round (js_multiply p 100)), T ''%'']"

definition onProgress :: "string \<Rightarrow> real \<Rightarrow> unit prog" where
  "onProgress label p = emit (progress_event label p)"

definition deliver :: "string \<Rightarrow> real list \<Rightarrow> unit prog" where
  "deliver label ps = do_all (map (onProgress label) ps)"

text \<open>\<^verbatim>\<open>path.resolve(v)\<close> throws a \<^verbatim>\<open>TypeError\<close> when \<open>v\<close> is not a string.\<close>

definition resolve_value :: "env \<Rightarrow> js_value \<Rightarrow> js_error + string" where
  "resolve_value e v =
     (case v of
        JStr p \<Rightarrow> Inr (path_resolve (cwd e) [p])
      | _ \<Rightarrow> Inl (JsError ''TypeError'' ''The paths[0] argument must be of type string'' []))"

section \<open>The resolution override given to the bundler\<close>

record resolve_options =
  modules :: "string list option"
  other_options :: "(string \<times> string) list"

record webpack_config =
  resolve :: "resolve_options option"
  resolveLoader :: "resolve_options option"
  other_settings :: "(string \<times> string) list"

text \<open>\<^verbatim>\<open>x || {}\<close> and \<^verbatim>\<open>x.modules || ['node_modules']\<close>\<close>

definition or_empty :: "resolve_options option \<Rightarrow> resolve_options" where
  "or_empty r = (case r of None \<Rightarrow> \<lparr>modules = None, other_options = []\<rparr> | Some x \<Rightarrow> x)"

definition or_default_modules :: "string list option \<Rightarrow> string list" where
  "or_default_modules m = (case m of None \<Rightarrow> [''node_modules''] | Some xs \<Rightarrow> xs)"

definition webpackOverride :: "string \<Rightarrow> webpack_config \<Rightarrow> webpack_config" where
  "webpackOverride rendererNodeModules webpackConfig =
     (let r = or_empty (resolve webpackConfig);
          r' = r\<lparr>modules := Some (rendererNodeModules # or_default_modules (modules r))\<rparr>;
          l = or_empty (resolveLoader webpackConfig);
          l' = l\<lparr>modules := Some (rendererNodeModules # or_default_modules (modules l))\<rparr>
      in webpackConfig\<lparr>resolve := Some r', resolveLoader := Some l'\<rparr>)"

section \<open>The hints of the catch block\<close>

fun str_includes :: "string \<Rightarrow> string \<Rightarrow> bool" where
  "str_includes [] sub = (sub = [])"
| "str_includes (x # xs) sub = (startsWith (x # xs) sub \<or> str_includes xs sub)"

definition cant_resolve :: string where
  "cant_resolve = ''Can'' @ [CHR 0x27] @ ''t resolve '' @ [CHR 0x27]"

text \<open>
  \<^verbatim>\<open>/Can't resolve '([^']+)'/\<close> at the start of \<open>s\<close>: the text, one or more characters
  that are not a quote, and a quote.  The group is the characters between.
\<close>

definition match_here :: "string \<Rightarrow> string option" where
  "match_here s =
     (if startsWith s cant_resolve then
        (let rest = drop (length cant_resolve) s;
             name = takeWhile (\<lambda>c. c \<noteq> CHR 0x27) rest;
             after = dropWhile (\<lambda>c. c \<noteq> CHR 0x27) rest
         in if name \<noteq> [] \<and> after \<noteq> [] then Some name else None)
      else None)"

text \<open>\<^verbatim>\<open>message.match(...)\<close>: the leftmost match; \<open>None\<close> is \<^verbatim>\<open>null\<close>.\<close>

fun match_module :: "string \<Rightarrow> string option" where
  "match_module [] = None"
| "match_module (x # xs) =
     (case match_here (x # xs) of
        Some name \<Rightarrow> Some name
      | None \<Rightarrow> match_module xs)"

definition supported_libraries :: "event list" where
  "supported_libraries =
     [ConsoleLog [T []],
      ConsoleLog [T ''  Supported libraries:''],
      ConsoleLog [T ''    - react, remotion (core)''],
      ConsoleLog [T ''    - three, @react-three/fiber, @react-three/drei''],
      ConsoleLog [T ''    - @remotion/* packages (media-utils, noise, shapes, etc.)''],
      ConsoleLog [T ''    - framer-motion, d3, lodash, zod'']]"

definition module_hint :: "string \<Rightarrow> event" where
  "module_hint name =
     ConsoleLog [T (''  Hint: Module '' @ [CHR 0x27] @ name @ [CHR 0x27]
                    @ '' is not installed in the renderer'')]"

definition generic_dependency_hint :: event where
  "generic_dependency_hint =
     ConsoleLog [T ''  Hint: Your TSX file uses a dependency not included in the renderer'']"

definition hints :: "string \<Rightarrow> event list" where
  "hints m =
     (if str_includes m ''compositionConfig'' then
        [ConsoleLog [T ''  Hint: Check that your compositionConfig is properly formatted'']]
      else if str_includes m ''Module not found'' then
        (case match_module m of
           Some name \<Rightarrow> [module_hint name]
         | None \<Rightarrow> [generic_dependency_hint])
        @ supported_libraries
      else if str_includes m ''ENOENT'' then
        [ConsoleLog [T ''  Hint: A required file or directory was not found'']]
      else [])"

section \<open>main\<close>

text \<open>
  \<^verbatim>\<open>args.output ? path.resolve(args.output) : generateOutputPath(absoluteInputPath)\<close>
\<close>

definition outputPath_of :: "env \<Rightarrow> js_object \<Rightarrow> string \<Rightarrow> js_error + string" where
  "outputPath_of e args absoluteInputPath =
     (if truthy (prop_get args ''output'') then resolve_value e (prop_get args ''output'')
      else Inr (generateOutputPath absoluteInputPath (clock e)))"

text \<open>The argument of \<^verbatim>\<open>renderMedia\<close>: the selected composition with four fields replaced.\<close>

definition render_options_of :: "config \<Rightarrow> composition \<Rightarrow> string \<Rightarrow> string \<Rightarrow> render_options" where
  "render_options_of cfg selected bundleLocation outputPath =
     (let durationInFrames = Math_round (js_multiply (durationInSeconds cfg) (fps cfg))
      in \<lparr>composition = selected\<lparr>comp_durationInFrames := durationInFrames,
                                comp_fps := fps cfg,
                                comp_width := width cfg,
                                comp_height := height cfg\<rparr>,
          serveUrl = bundleLocation,
          codec = ''h264'',
          outputLocation = outputPath\<rparr>)"

definition entryPoint_of :: "string \<Rightarrow> string" where
  "entryPoint_of dir = path_join [dir, ''src'', ''index.ts'']"

definition rendererNodeModules_of :: "env \<Rightarrow> string" where
  "rendererNodeModules_of e = path_resolve (cwd e) [script_dirname e, ''node_modules'']"

definition assign_tempProjectDir :: "string \<Rightarrow> unit prog" where
  "assign_tempProjectDir dir = (\<lambda>s. (Normal (), s\<lparr>tempProjectDir := Some dir\<rparr>))"

text \<open>The body of the \<^verbatim>\<open>try\<close> block, lines 112 to 205.\<close>

definition main_try_block :: "env \<Rightarrow> config \<Rightarrow> string \<Rightarrow> string \<Rightarrow> unit prog" where
  "main_try_block e cfg absoluteInputPath outputPath =
     andThen (do_all
       [emit (ConsoleLog [T []]),
        emit (Log [[T ''Checking browser...'']]),
        emit Call_ensureBrowser,
        deliver ''Downloading browser: '' (fst (ensureBrowser e)),
        lift_unit (snd (ensureBrowser e)),
        emit ClearProgress,
        emit (SuccessMsg [T ''Browser ready'']),
        emit (Log [[T ''Creating temporary project...'']]),
        emit (Call_createTempProject absoluteInputPath cfg)]) (\<lambda>_.
     andThen (lift (createTempProject e absoluteInputPath cfg)) (\<lambda>dir.
     andThen (do_all
       [assign_tempProjectDir dir,
        emit (SuccessMsg [T ''Temporary project created'']),
        emit (Log [[T ''Bundling project...'']]),
        emit (Call_bundle (entryPoint_of dir) (rendererNodeModules_of e)),
        deliver ''Bundling: '' (fst (bundleProject e (entryPoint_of dir)))]) (\<lambda>_.
     andThen (lift (snd (bundleProject e (entryPoint_of dir)))) (\<lambda>bundleLocation.
     andThen (do_all
       [emit ClearProgress,
        emit (SuccessMsg [T ''Bundle complete'']),
        emit (Log [[T ''Selecting composition...'']]),
        emit (Call_selectComposition bundleLocation (config_id cfg))]) (\<lambda>_.
     andThen (lift (selectComposition e bundleLocation (config_id cfg))) (\<lambda>selected.
     (let durationInFrames = Math_round (js_multiply (durationInSeconds cfg) (fps cfg));
          opts = render_options_of cfg selected bundleLocation outputPath
      in do_all
       [emit (SuccessMsg [T (''Selected: '' @ comp_id selected)]),
        emit (ConsoleLog [T []]),
        emit (Log [[T ''Rendering video...'']]),
        emit (ConsoleLog [T ''    '', N durationInFrames, T '' frames at '',
                          N (Finite (fps cfg)), T ''fps'']),
        emit (Call_renderMedia opts),
        deliver ''Rendering: '' (fst (renderMedia e opts)),
        lift_unit (snd (renderMedia e opts)),
        emit ClearProgress,
        emit (ConsoleLog [T []]),
        emit (SuccessMsg [T ''Render complete!'']),
        emit (ConsoleLog [T []]),
        emit (ConsoleLog [T (''  Output: '' @ outputPath)]),
        emit (ConsoleLog [T []]),
        process_exit 0])))))))"

text \<open>The \<^verbatim>\<open>catch\<close> block, lines 206 to 236.\<close>

definition catch_events :: "js_object \<Rightarrow> js_error \<Rightarrow> event list" where
  "catch_events args err =
     [ClearProgress,
      ErrorMsg [T (''Render failed: '' @ message err)]]
     @ hints (message err)
     @ (if truthy (prop_get args ''verbose'') then
          [ConsoleLog [T []],
           ConsoleLog [T ''  Stack trace:''],
           ConsoleLog [T (stack err)]]
        else [])"

definition main_catch_block :: "js_object \<Rightarrow> js_error \<Rightarrow> unit prog" where
  "main_catch_block args err =
     andThen (do_all (map emit (catch_events args err))) (\<lambda>_. process_exit 1)"

text \<open>The \<^verbatim>\<open>finally\<close> block, lines 237 to 242.\<close>

definition main_finally_block :: "unit prog" where
  "main_finally_block =
     (\<lambda>s. case tempProjectDir s of
            None \<Rightarrow> ret () s
          | Some dir \<Rightarrow> (if dir \<noteq> [] then emit (Call_cleanupTempProject dir) s else ret () s))"

definition usage :: "unit prog" where
  "usage =
     do_all
       [emit (ErrorMsg [T ''No input file specified'']),
        emit (ConsoleLog [T []]),
        emit (ConsoleLog [T ''  Usage: render-cli.js --input=file.tsx [--output=output.mp4]'']),
        emit (ConsoleLog [T []]),
        process_exit 1]"

definition extraction_hint :: "event list" where
  "extraction_hint =
     [ConsoleLog [T []],
      ConsoleLog [T ''  Hint: Ensure your TSX file exports a compositionConfig object:''],
      ConsoleLog [T []],
      ConsoleLog [T ''    export const compositionConfig = {''],
      ConsoleLog [T (''      id: '' @ [CHR 0x27] @ ''MyVideo'' @ [CHR 0x27] @ '','')],
      ConsoleLog [T ''      durationInSeconds: 5,''],
      ConsoleLog [T ''      fps: 30,''],
      ConsoleLog [T ''      width: 1080,''],
      ConsoleLog [T ''      height: 1920,''],
      ConsoleLog [T ''    };''],
      ConsoleLog [T []]]"

text \<open>Lines 85 to 107: the extraction, its three log lines, and its own catch block.\<close>

definition main_extract :: "env \<Rightarrow> string \<Rightarrow> config prog" where
  "main_extract e absoluteInputPath =
     try_catch
       (andThen (emit (Call_extractCompositionConfig absoluteInputPath)) (\<lambda>_.
        andThen (lift (extractCompositionConfig e absoluteInputPath)) (\<lambda>cfg.
        andThen (do_all
          [emit (Log [[T ''Composition ID''], [T (config_id cfg)]]),
           emit (Log [[T ''Duration''],
                      [N (Finite (durationInSeconds cfg)), T ''s at '',
                       N (Finite (fps cfg)), T ''fps'']]),
           emit (Log [[T ''Resolution''],
                      [N (Finite (width cfg)), T ''x'', N (Finite (height cfg))]])]) (\<lambda>_.
        ret cfg))))
       (\<lambda>err.
        andThen (do_all
          (emit (ErrorMsg [T (''Failed to extract composition config: '' @ message err)])
           # map emit extraction_hint)) (\<lambda>_.
        process_exit 1))"

definition main :: "env \<Rightarrow> string list \<Rightarrow> unit prog" where
  "main e argv =
     andThen (emit (Banner [T ''Remotion Video Renderer''])) (\<lambda>_.
     andThen (lift (parseArgs argv)) (\<lambda>args.
     (let inputPath = inputPath_of args in
     andThen (if \<not> truthy inputPath then usage else ret ()) (\<lambda>_.
     andThen (lift (resolve_value e inputPath)) (\<lambda>absoluteInputPath.
     andThen (try_catch
                (do_all [emit (Call_validateTsxFile absoluteInputPath),
                         lift_unit (validateTsxFile e absoluteInputPath)])
                (\<lambda>err. do_all [emit (ErrorMsg [T (message err)]), process_exit 1])) (\<lambda>_.
     andThen (lift (outputPath_of e args absoluteInputPath)) (\<lambda>outputPath.
     andThen (do_all
       [emit (Log [[T ''Input''], [T absoluteInputPath]]),
        emit (Log [[T ''Output''], [T outputPath]]),
        emit (ConsoleLog [T []]),
        emit (Log [[T ''Extracting composition config...'']])]) (\<lambda>_.
     andThen (main_extract e absoluteInputPath) (\<lambda>cfg.
     try_finally
       (try_catch (main_try_block e cfg absoluteInputPath outputPath) (main_catch_block args))
       main_finally_block)))))))))"

text \<open>
  A run of the script: \<^verbatim>\<open>main()\<close> from the state of a fresh process.  The status of the
  process is the argument of \<^verbatim>\<open>process.exit\<close>; an error that leaves \<open>main\<close> rejects its
  promise, which nothing handles, and Node (from version 15) ends with status 1.
\<close>

definition run :: "env \<Rightarrow> string list \<Rightarrow> unit outcome \<times> state" where
  "run e argv = main e argv \<lparr>trace = [], tempProjectDir = None\<rparr>"

definition events :: "env \<Rightarrow> string list \<Rightarrow> event list" where
  "events e argv = trace (snd (run e argv))"

fun status_of :: "unit outcome \<Rightarrow> int" where
  "status_of (Exited c) = c"
| "status_of (Thrown err) = 1"
| "status_of (Normal u) = 0"

definition exit_status :: "env \<Rightarrow> string list \<Rightarrow> int" where
  "exit_status e argv = status_of (fst (run e argv))"

section \<open>The pipeline of the specification\<close>

text \<open>
  The specification describes a run as a sequence of phases, each of which may fail.
  \<open>failure_of\<close> follows these words: it gives the first phase that fails, with its error,
  and \<open>None\<close> when the whole pipeline succeeds.  It prints nothing and knows no exit
  status; the theorems compare \<open>main\<close> with it.  \<open>Arguments\<close> stands for a command line
  that gives no usable input or output path, \<open>Provisioning\<close> for the browser check.
\<close>

datatype phase =
  Arguments | Validating | Extracting | Provisioning | Staging | Bundling | Selecting | Rendering

definition failure_of :: "env \<Rightarrow> string list \<Rightarrow> (phase \<times> js_error) option" where
  "failure_of e argv =
     (case parseArgs argv of
        Inl err \<Rightarrow> Some (Arguments, err)
      | Inr args \<Rightarrow>
     if \<not> truthy (inputPath_of args)
     then Some (Arguments, JsError ''Error'' ''No input file specified'' [])
     else
     (case resolve_value e (inputPath_of args) of
        Inl err \<Rightarrow> Some (Arguments, err)
      | Inr absoluteInputPath \<Rightarrow>
     (case validateTsxFile e absoluteInputPath of
        Some err \<Rightarrow> Some (Validating, err)
      | None \<Rightarrow>
     (case outputPath_of e args absoluteInputPath of
        Inl err \<Rightarrow> Some (Arguments, err)
      | Inr outputPath \<Rightarrow>
     (case extractCompositionConfig e absoluteInputPath of
        Inl err \<Rightarrow> Some (Extracting, err)
      | Inr cfg \<Rightarrow>
     (case snd (ensureBrowser e) of
        Some err \<Rightarrow> Some (Provisioning, err)
      | None \<Rightarrow>
     (case createTempProject e absoluteInputPath cfg of
        Inl err \<Rightarrow> Some (Staging, err)
      | Inr dir \<Rightarrow>
     (case snd (bundleProject e (entryPoint_of dir)) of
        Inl err \<Rightarrow> Some (Bundling, err)
      | Inr bundleLocation \<Rightarrow>
     (case selectComposition e bundleLocation (config_id cfg) of
        Inl err \<Rightarrow> Some (Selecting, err)
      | Inr selected \<Rightarrow>
     (case snd (renderMedia e (render_options_of cfg selected bundleLocation outputPath)) of
        Some err \<Rightarrow> Some (Rendering, err)
      | None \<Rightarrow> None))))))))))"

text \<open>The phases inside the \<^verbatim>\<open>try\<close> block of \<open>main\<close>.\<close>

fun in_try_block :: "phase \<Rightarrow> bool" where
  "in_try_block Provisioning = True"
| "in_try_block Staging = True"
| "in_try_block Bundling = True"
| "in_try_block Selecting = True"
| "in_try_block Rendering = True"
| "in_try_block ph = False"

text \<open>
  A valid Composition Descriptor, in the words of the data model: a non-empty id, a
  positive duration, and a frame rate, a width and a height that are positive integers.
\<close>

definition valid_config :: "config \<Rightarrow> bool" where
  "valid_config cfg =
     (config_id cfg \<noteq> [] \<and> 0 < durationInSeconds cfg
      \<and> 0 < fps cfg \<and> fps cfg = of_int \<lfloor>fps cfg\<rfloor>
      \<and> 0 < width cfg \<and> width cfg = of_int \<lfloor>width cfg\<rfloor>
      \<and> 0 < height cfg \<and> height cfg = of_int \<lfloor>height cfg\<rfloor>)"

text \<open>The arguments of the calls of \<^verbatim>\<open>renderMedia\<close> that a run has made.\<close>

fun rendered :: "event list \<Rightarrow> render_options list" where
  "rendered [] = []"
| "rendered (Call_renderMedia opts # evs) = opts # rendered evs"
| "rendered (ev # evs) = rendered evs"

text \<open>The percentages that a run has printed under a label, in order.\<close>

fun reported :: "string \<Rightarrow> event list \<Rightarrow> number list" where
  "reported label [] = []"
| "reported label (ProgressMsg [T l, N n, T u] # evs) =
     (if l = label then n # reported label evs else reported label evs)"
| "reported label (ev # evs) = reported label evs"

text \<open>The order of the numbers, the infinities at its ends.\<close>

fun number_le :: "number \<Rightarrow> number \<Rightarrow> bool" where
  "number_le NegInfinity y = True"
| "number_le x PosInfinity = True"
| "number_le (Finite a) (Finite b) = (a \<le> b)"
| "number_le x y = False"

text \<open>
  The timestamp of the specification: the date and the time of day to the second, with
  hyphens between the fields of the time.
\<close>

definition second_precision_timestamp :: "utc_time \<Rightarrow> string" where
  "second_precision_timestamp t =
     pad 4 (year t) @ ''-'' @ pad 2 (month t) @ ''-'' @ pad 2 (day t)
     @ ''T'' @ pad 2 (hours t) @ ''-'' @ pad 2 (minutes t) @ ''-'' @ pad 2 (seconds t)"

definition valid_time :: "utc_time \<Rightarrow> bool" where
  "valid_time t =
     (year t \<le> 9999 \<and> 1 \<le> month t \<and> month t \<le> 12 \<and> 1 \<le> day t \<and> day t \<le> 31
      \<and> hours t \<le> 23 \<and> minutes t \<le> 59 \<and> seconds t \<le> 59 \<and> millis t \<le> 999)"

text \<open>An absolute path in normal form, by its segments.\<close>

definition normal_segment :: "string \<Rightarrow> bool" where
  "normal_segment seg = (seg \<noteq> [] \<and> seg \<noteq> ''.'' \<and> seg \<noteq> ''..'' \<and> CHR ''/'' \<notin> set seg)"

definition abs_path :: "string list \<Rightarrow> string" where
  "abs_path segs = concat (map (\<lambda>seg. ''/'' @ seg) segs)"

section \<open>The configuration extractor\<close>

text \<open>
  Modelled from the spec: \<^verbatim>\<open>extractCompositionConfig\<close> of \<^verbatim>\<open>lib/config-extractor\<close> is
  not among the sources.  The specification says that it reads the literal fields of the
  exported \<^verbatim>\<open>compositionConfig\<close> without running the file, that the fields \<^verbatim>\<open>id\<close>
  (a string) and \<^verbatim>\<open>durationInSeconds\<close>, \<^verbatim>\<open>fps\<close>, \<^verbatim>\<open>width\<close>, \<^verbatim>\<open>height\<close> (numbers) are
  required, without defaults, and that a missing or wrong-typed field fails with a
  \<^verbatim>\<open>ConfigExtractionError\<close> naming the field.  The wording of the message is not given;
  the model only puts the name of the field at its end.
\<close>

datatype literal = StrLit string | NumLit real | OtherLit

type_synonym source_fields = "string \<rightharpoonup> literal"

definition required_fields :: "string list" where
  "required_fields = [''id'', ''durationInSeconds'', ''fps'', ''width'', ''height'']"

definition field_ok :: "source_fields \<Rightarrow> string \<Rightarrow> bool" where
  "field_ok src f =
     (case src f of
        Some (StrLit v) \<Rightarrow> f = ''id''
      | Some (NumLit v) \<Rightarrow> f \<noteq> ''id''
      | _ \<Rightarrow> False)"

definition ConfigExtractionError :: "string \<Rightarrow> js_error" where
  "ConfigExtractionError f =
     JsError ''ConfigExtractionError'' (''Missing or invalid field: '' @ f) []"

definition str_field :: "source_fields \<Rightarrow> string \<Rightarrow> string" where
  "str_field src f = (case src f of Some (StrLit v) \<Rightarrow> v | _ \<Rightarrow> [])"

definition num_field :: "source_fields \<Rightarrow> string \<Rightarrow> real" where
  "num_field src f = (case src f of Some (NumLit v) \<Rightarrow> v | _ \<Rightarrow> 0)"

definition extract_fields :: "source_fields \<Rightarrow> js_error + config" where
  "extract_fields src =
     (case find (\<lambda>f. \<not> field_ok src f) required_fields of
        Some f \<Rightarrow> Inl (ConfigExtractionError f)
      | None \<Rightarrow>
          Inr \<lparr>config_id = str_field src ''id'',
               durationInSeconds = num_field src ''durationInSeconds'',
               fps = num_field src ''fps'',
               width = num_field src ''width'',
               height = num_field src ''height''\<rparr>)"

section \<open>Sample runs\<close>

text \<open>
  The environments and command lines at which the theorems below are instantiated.  In
  \<open>demo_env\<close> every collaborator succeeds, on the descriptor of the specification's
  scenario.
\<close>

definition demo_config :: config where
  "demo_config =
     \<lparr>config_id = ''X'', durationInSeconds = 5, fps = 30, width = 1080, height = 1920\<rparr>"

definition demo_env :: env where
  "demo_env =
     \<lparr>cwd = ''/home/u'',
      script_dirname = ''/opt/renderer'',
      clock = \<lparr>year = 2026, month = 11, day = 2,
               hours = 9, minutes = 5, seconds = 7, millis = 42\<rparr>,
      validateTsxFile = (\<lambda>p. None),
      extractCompositionConfig = (\<lambda>p. Inr demo_config),
      ensureBrowser = ([], None),
      createTempProject = (\<lambda>p cfg. Inr ''/tmp/remotion-1''),
      bundleProject = (\<lambda>p. ([0, 1 / 2, 1], Inr ''/tmp/bundle'')),
      selectComposition =
        (\<lambda>url i. Inr \<lparr>comp_id = i, comp_durationInFrames = Finite 1, comp_fps = 1,
                        comp_width = 1, comp_height = 1, comp_props = ''{}''\<rparr>),
      renderMedia = (\<lambda>opts. ([1 / 2, 1], None))\<rparr>"

definition demo_argv :: "string list" where
  "demo_argv = [''node'', ''render-cli.js'', ''--input=demo.tsx'']"

text \<open>A quarter of a second at one frame per second.\<close>

definition short_config :: config where
  "short_config =
     \<lparr>config_id = ''X'', durationInSeconds = 1 / 4, fps = 1, width = 1080, height = 1920\<rparr>"

definition short_env :: env where
  "short_env = demo_env\<lparr>extractCompositionConfig := (\<lambda>p. Inr short_config)\<rparr>"

text \<open>A source file whose configuration has no \<^verbatim>\<open>fps\<close>.\<close>

definition no_fps_fields :: source_fields where
  "no_fps_fields =
     [''id'' \<mapsto> StrLit ''X'', ''durationInSeconds'' \<mapsto> NumLit 5,
      ''width'' \<mapsto> NumLit 1080, ''height'' \<mapsto> NumLit 1920]"

definition no_fps_env :: env where
  "no_fps_env = demo_env\<lparr>extractCompositionConfig := (\<lambda>p. extract_fields no_fps_fields)\<rparr>"

text \<open>A bundler whose progress goes back, and beyond 1.\<close>

definition erratic_env :: env where
  "erratic_env = demo_env\<lparr>bundleProject := (\<lambda>p. ([1 / 2, 1 / 4, 3 / 2], Inr ''/tmp/bundle''))\<rparr>"

text \<open>A bundler that fails on a module it cannot resolve, with two wordings of the error.\<close>

definition cant_resolve_foo_bar :: string where
  "cant_resolve_foo_bar = cant_resolve @ ''foo-bar'' @ [CHR 0x27]"

definition bare_unresolved_env :: env where
  "bare_unresolved_env =
     demo_env\<lparr>bundleProject := (\<lambda>p. ([], Inl (JsError ''Error'' cant_resolve_foo_bar [])))\<rparr>"

definition module_not_found_env :: env where
  "module_not_found_env =
     demo_env\<lparr>bundleProject :=
       (\<lambda>p. ([], Inl (JsError ''Error''
                (''Module not found: Error: '' @ cant_resolve_foo_bar @ '' in /tmp/remotion-1/src'')
                [])))\<rparr>"

text \<open>Command lines: an output path in double quotes with a flag, and two ways to name the input.\<close>

definition quoted_argv :: "string list" where
  "quoted_argv =
     [''node'', ''render-cli.js'',
      ''--output='' @ [CHR 0x22] @ ''o.mp4'' @ [CHR 0x22], ''--verbose'']"

definition both_argv :: "string list" where
  "both_argv = [''node'', ''render-cli.js'', ''pos.tsx'', ''--input=chosen.tsx'']"

definition positional_argv :: "string list" where
  "positional_argv = [''node'', ''render-cli.js'', ''--verbose'', ''pos.tsx'', ''other.tsx'']"

definition flag_argv :: "string list" where
  "flag_argv = [''node'', ''render-cli.js'', ''--verbose'']"

text \<open>A bundler configuration with two module directories and no loader settings.\<close>

definition sample_webpack_config :: webpack_config where
  "sample_webpack_config =
     \<lparr>resolve = Some \<lparr>modules = Some [''src'', ''node_modules''],
                       other_options = [(''extensions'', ''.tsx'')]\<rparr>,
      resolveLoader = None,
      other_settings = [(''mode'', ''production'')]\<rparr>"

text \<open>A bundler that fails on a dependency without naming a module.\<close>

definition unnamed_dependency_env :: env where
  "unnamed_dependency_env =
     demo_env\<lparr>bundleProject :=
       (\<lambda>p. ([], Inl (JsError ''Error'' ''Module not found: Error: unknown dependency'' [])))\<rparr>"

text \<open>
  A bundler whose message has the words \<^verbatim>\<open>Can't resolve\<close> twice, the first time with an
  empty module name.
\<close>

definition empty_name_first :: string where
  "empty_name_first =
     ''Module not found: Error: '' @ cant_resolve @ [CHR 0x27]
       @ '' and '' @ cant_resolve @ ''b'' @ [CHR 0x27]"

definition empty_name_first_env :: env where
  "empty_name_first_env =
     demo_env\<lparr>bundleProject := (\<lambda>p. ([], Inl (JsError ''Error'' empty_name_first [])))\<rparr>"

section \<open>Facts about the rounding of numbers\<close>

lemma bitlen_pos: "0 < x \<Longrightarrow> 1 \<le> bitlen x"
  by (simp add: bitlen_alt_def)

lemma exponent_of_lower:
  assumes "0 < y"
  shows "2 powi exponent_of y \<le> y"
proof (cases "1 \<le> y")
  case True
  then have pos: "0 < \<lfloor>y\<rfloor>" by simp
  have "real_of_int (2 ^ nat (bitlen \<lfloor>y\<rfloor> - 1)) \<le> real_of_int \<lfloor>y\<rfloor>"
    using bitlen_bounds [OF pos] by (simp only: of_int_le_iff)
  also have "\<dots> \<le> y" by simp
  finally have "(2::real) ^ nat (bitlen \<lfloor>y\<rfloor> - 1) \<le> y" by simp
  then show ?thesis
    using True bitlen_pos [OF pos] by (simp add: exponent_of_def power_int_nonneg_exp)
next
  case False
  define N where "N = \<lceil>1 / y\<rceil>"
  have z: "1 < 1 / y" using False assms by simp
  then have N2: "0 < N - 1" unfolding N_def by linarith
  have "1 / y \<le> real_of_int N" unfolding N_def by simp
  also have "real_of_int N \<le> real_of_int (2 ^ nat (bitlen (N - 1)))"
    using bitlen_bounds [OF N2] by (simp only: of_int_le_iff) simp
  finally have "1 / y \<le> 2 ^ nat (bitlen (N - 1))" by simp
  then have "1 / 2 ^ nat (bitlen (N - 1)) \<le> y"
    using assms by (simp add: field_simps)
  then show ?thesis
    using False bitlen_pos [OF N2]
    by (simp add: exponent_of_def N_def [symmetric] power_int_minus_divide power_int_nonneg_exp)
qed

lemma exponent_of_upper:
  assumes "0 < y"
  shows "y < 2 powi (exponent_of y + 1)"
proof (cases "1 \<le> y")
  case True
  then have pos: "0 < \<lfloor>y\<rfloor>" by simp
  have "\<lfloor>y\<rfloor> + 1 \<le> 2 ^ nat (bitlen \<lfloor>y\<rfloor>)"
    using bitlen_bounds [OF pos] by simp
  then have "real_of_int (\<lfloor>y\<rfloor> + 1) \<le> real_of_int (2 ^ nat (bitlen \<lfloor>y\<rfloor>))"
    by (simp only: of_int_le_iff)
  moreover have "y < real_of_int (\<lfloor>y\<rfloor> + 1)" by linarith
  ultimately have "y < real_of_int (2 ^ nat (bitlen \<lfloor>y\<rfloor>))" by linarith
  then have "y < 2 ^ nat (bitlen \<lfloor>y\<rfloor>)" by simp
  then show ?thesis
    using True bitlen_pos [OF pos] by (simp add: exponent_of_def power_int_nonneg_exp)
next
  case False
  define N where "N = \<lceil>1 / y\<rceil>"
  define k where "k = bitlen (N - 1)"
  have z: "1 < 1 / y" using False assms by simp
  then have N2: "0 < N - 1" unfolding N_def by linarith
  have k1: "1 \<le> k" unfolding k_def by (rule bitlen_pos [OF N2])
  have "real_of_int (2 ^ nat (k - 1)) \<le> real_of_int (N - 1)"
    unfolding k_def using bitlen_bounds [OF N2] by (simp only: of_int_le_iff)
  also have "real_of_int (N - 1) < 1 / y" unfolding N_def by linarith
  finally have "2 ^ nat (k - 1) < 1 / y" by simp
  then have "y < 1 / 2 ^ nat (k - 1)"
    using assms by (simp add: field_simps)
  also have "1 / 2 ^ nat (k - 1) = (2::real) powi (- (k - 1))"
  proof -
    have "(2::real) powi (k - 1) = 2 ^ nat (k - 1)"
      using k1 by (intro power_int_nonneg_exp) simp
    then show ?thesis by (simp only: power_int_minus_divide)
  qed
  finally show ?thesis
    using False by (simp add: exponent_of_def N_def [symmetric] k_def [symmetric])
qed

lemma exponent_of_mono:
  assumes "0 < x" "x \<le> y"
  shows "exponent_of x \<le> exponent_of y"
proof -
  have "2 powi exponent_of x \<le> x" using assms by (simp add: exponent_of_lower)
  also have "x \<le> y" by fact
  also have "y < 2 powi (exponent_of y + 1)" using assms by (simp add: exponent_of_upper)
  finally have lt: "(2::real) powi exponent_of x < 2 powi (exponent_of y + 1)" .
  have "\<not> exponent_of y + 1 \<le> exponent_of x"
  proof
    assume "exponent_of y + 1 \<le> exponent_of x"
    then have "(2::real) powi (exponent_of y + 1) \<le> 2 powi exponent_of x"
      by (rule power_int_increasing) simp
    with lt show False by simp
  qed
  then show ?thesis by simp
qed

lemma round_half_even_of_int [simp]: "round_half_even (of_int k) = k"
  by (simp add: round_half_even_def)

lemma round_half_even_mono:
  assumes "m \<le> n"
  shows "round_half_even m \<le> round_half_even n"
proof -
  have "\<lfloor>m\<rfloor> \<le> \<lfloor>n\<rfloor>" using assms by (rule floor_mono)
  then consider "\<lfloor>m\<rfloor> = \<lfloor>n\<rfloor>" | "\<lfloor>m\<rfloor> + 1 \<le> \<lfloor>n\<rfloor>" by linarith
  then show ?thesis
  proof cases
    case 1
    then show ?thesis using assms by (auto simp: round_half_even_def Let_def)
  next
    case 2
    have "round_half_even m \<le> \<lfloor>m\<rfloor> + 1" by (simp add: round_half_even_def Let_def)
    moreover have "\<lfloor>n\<rfloor> \<le> round_half_even n" by (simp add: round_half_even_def Let_def)
    ultimately show ?thesis using 2 by linarith
  qed
qed

lemma nearest_double_positive:
  "0 < x \<Longrightarrow> nearest_double x = of_int (round_half_even (x / 2 powi ulp_exponent x)) * 2 powi ulp_exponent x"
  by (simp add: nearest_double_def Let_def)

lemma nearest_double_upper:
  assumes "0 < x"
  shows "nearest_double x \<le> 2 powi (ulp_exponent x + 53)"
proof -
  define u where "u = ulp_exponent x"
  have "exponent_of x + 1 \<le> u + 53"
    using assms by (simp add: u_def ulp_exponent_def)
  then have "(2::real) powi (exponent_of x + 1) \<le> 2 powi (u + 53)"
    by (rule power_int_increasing) simp
  with exponent_of_upper [OF assms] have "x \<le> 2 powi (u + 53)" by simp
  also have "(2::real) powi (u + 53) = 2 ^ 53 * 2 powi u"
    by (simp add: power_int_add)
  finally have "x / 2 powi u \<le> real_of_int (2 ^ 53)"
    by (simp add: field_simps)
  then have "round_half_even (x / 2 powi u) \<le> round_half_even (real_of_int (2 ^ 53))"
    by (rule round_half_even_mono)
  then have "round_half_even (x / 2 powi u) \<le> 2 ^ 53"
    by (simp only: round_half_even_of_int)
  then have "real_of_int (round_half_even (x / 2 powi u)) \<le> real_of_int (2 ^ 53)"
    by (simp only: of_int_le_iff)
  then have "real_of_int (round_half_even (x / 2 powi u)) * 2 powi u \<le> 2 ^ 53 * 2 powi u"
    by (simp add: mult_right_mono)
  then show ?thesis
    using assms by (simp add: nearest_double_positive u_def [symmetric] power_int_add)
qed

lemma nearest_double_lower:
  assumes "0 < x" "- 1022 \<le> exponent_of x"
  shows "2 powi (ulp_exponent x + 52) \<le> nearest_double x"
proof -
  define u where "u = ulp_exponent x"
  have e: "exponent_of x = u + 52"
    using assms by (simp add: u_def ulp_exponent_def)
  have "(2::real) powi (u + 52) \<le> x"
    using exponent_of_lower [OF assms(1)] by (simp add: e)
  moreover have "(2::real) powi (u + 52) = 2 ^ 52 * 2 powi u"
    by (simp add: power_int_add)
  ultimately have "real_of_int (2 ^ 52) \<le> x / 2 powi u"
    by (simp add: field_simps)
  then have "round_half_even (real_of_int (2 ^ 52)) \<le> round_half_even (x / 2 powi u)"
    by (rule round_half_even_mono)
  then have "2 ^ 52 \<le> round_half_even (x / 2 powi u)"
    by (simp only: round_half_even_of_int)
  then have "real_of_int (2 ^ 52) \<le> real_of_int (round_half_even (x / 2 powi u))"
    by (simp only: of_int_le_iff)
  then have "2 ^ 52 * 2 powi u \<le> real_of_int (round_half_even (x / 2 powi u)) * 2 powi u"
    by (simp add: mult_right_mono)
  then show ?thesis
    using assms by (simp add: nearest_double_positive u_def [symmetric] power_int_add)
qed

lemma nearest_double_nonneg:
  assumes "0 \<le> x"
  shows "0 \<le> nearest_double x"
proof (cases "x = 0")
  case True
  then show ?thesis by (simp add: nearest_double_def)
next
  case False
  with assms have pos: "0 < x" by simp
  have "0 \<le> x / 2 powi ulp_exponent x" using pos by simp
  then have "round_half_even (real_of_int 0) \<le> round_half_even (x / 2 powi ulp_exponent x)"
    by (intro round_half_even_mono) simp
  then have "0 \<le> round_half_even (x / 2 powi ulp_exponent x)"
    by (simp only: round_half_even_of_int)
  then show ?thesis using pos by (simp add: nearest_double_positive)
qed

lemma nearest_double_mono_nonneg:
  assumes "0 \<le> x" "x \<le> y"
  shows "nearest_double x \<le> nearest_double y"
proof (cases "x = 0")
  case True
  then show ?thesis using assms nearest_double_nonneg [of y] by (simp add: nearest_double_def)
next
  case False
  with assms have x: "0 < x" and y: "0 < y" by simp_all
  have "exponent_of x \<le> exponent_of y" using x assms(2) by (rule exponent_of_mono)
  then have "ulp_exponent x \<le> ulp_exponent y"
    using x y by (simp add: ulp_exponent_def)
  then consider "ulp_exponent x = ulp_exponent y" | "ulp_exponent x + 1 \<le> ulp_exponent y"
    by linarith
  then show ?thesis
  proof cases
    case 1
    have "x / 2 powi ulp_exponent y \<le> y / 2 powi ulp_exponent y"
      using assms(2) by (simp add: divide_right_mono)
    then have "round_half_even (x / 2 powi ulp_exponent y) \<le> round_half_even (y / 2 powi ulp_exponent y)"
      by (rule round_half_even_mono)
    then have "real_of_int (round_half_even (x / 2 powi ulp_exponent y)) * 2 powi ulp_exponent y
        \<le> real_of_int (round_half_even (y / 2 powi ulp_exponent y)) * 2 powi ulp_exponent y"
      by (simp add: mult_right_mono)
    then show ?thesis using x y 1 by (simp add: nearest_double_positive)
  next
    case 2
    then have normal: "- 1022 \<le> exponent_of y"
      using x y by (simp add: ulp_exponent_def split: if_splits)
    have "nearest_double x \<le> 2 powi (ulp_exponent x + 53)" using x by (rule nearest_double_upper)
    also have "(2::real) powi (ulp_exponent x + 53) \<le> 2 powi (ulp_exponent y + 52)"
      using 2 by (intro power_int_increasing) simp_all
    also have "\<dots> \<le> nearest_double y" using y normal by (rule nearest_double_lower)
    finally show ?thesis .
  qed
qed

lemma floor_minus_nonint:
  assumes "m \<noteq> of_int \<lfloor>m\<rfloor>"
  shows "\<lfloor>- m\<rfloor> = - \<lfloor>m\<rfloor> - 1"
proof -
  have "of_int \<lfloor>m\<rfloor> \<le> m" by (rule of_int_floor_le)
  with assms have "of_int \<lfloor>m\<rfloor> < m" by (metis less_le)
  moreover have "m < of_int \<lfloor>m\<rfloor> + 1" by linarith
  ultimately show ?thesis by (intro floor_unique) simp_all
qed

lemma round_half_even_minus: "round_half_even (- m) = - round_half_even m"
proof (cases "m = of_int \<lfloor>m\<rfloor>")
  case True
  then obtain k where k: "m = of_int k" ..
  then have "- m = of_int (- k)" by simp
  then have "round_half_even (- m) = - k" by (simp only: round_half_even_of_int)
  then show ?thesis unfolding k by (simp only: round_half_even_of_int)
next
  case False
  note f = floor_minus_nonint [OF False]
  define r where "r = m - of_int \<lfloor>m\<rfloor>"
  have m: "m = of_int \<lfloor>m\<rfloor> + r" by (simp add: r_def)
  have r: "- m - of_int (- \<lfloor>m\<rfloor> - 1) = 1 - r" by (simp add: r_def)
  show ?thesis
    unfolding round_half_even_def Let_def f r r_def [symmetric]
    by (cases "r < 1 / 2"; cases "1 / 2 < r") auto
qed

lemma ulp_exponent_minus [simp]: "ulp_exponent (- x) = ulp_exponent x"
  by (simp add: ulp_exponent_def)

lemma nearest_double_minus: "nearest_double (- x) = - nearest_double x"
  by (simp add: nearest_double_def Let_def round_half_even_minus)

lemma nearest_double_mono:
  assumes "x \<le> y"
  shows "nearest_double x \<le> nearest_double y"
proof -
  consider "0 \<le> x" | "y \<le> 0" | "x < 0" "0 < y" by linarith
  then show ?thesis
  proof cases
    case 1
    then show ?thesis using assms by (rule nearest_double_mono_nonneg)
  next
    case 2
    then have "nearest_double (- y) \<le> nearest_double (- x)"
      using assms by (intro nearest_double_mono_nonneg) simp_all
    then show ?thesis by (simp add: nearest_double_minus)
  next
    case 3
    have "0 \<le> nearest_double (- x)" using 3 by (intro nearest_double_nonneg) simp
    moreover have "0 \<le> nearest_double y" using 3 by (intro nearest_double_nonneg) simp
    ultimately show ?thesis by (simp add: nearest_double_minus)
  qed
qed

lemmas double_eval = to_double_def nearest_double_def ulp_exponent_def exponent_of_def
  round_half_even_def js_multiply_def Let_def compute_bitlen

lemma number_le_refl [simp]: "number_le x x"
  by (cases x) simp_all

lemma to_double_mono: "x \<le> y \<Longrightarrow> number_le (to_double x) (to_double y)"
  using nearest_double_mono [of x y] by (simp add: to_double_def Let_def)

lemma Math_round_mono: "number_le x y \<Longrightarrow> number_le (Math_round x) (Math_round y)"
  by (cases x; cases y) (simp_all add: floor_mono)

lemma percent_mono:
  "p \<le> q \<Longrightarrow> number_le (Math_round (js_multiply p 100)) (Math_round (js_multiply q 100))"
  unfolding js_multiply_def by (intro Math_round_mono to_double_mono) simp

lemma sorted_percent:
  "sorted ps \<Longrightarrow> sorted_wrt number_le (map (\<lambda>p. Math_round (js_multiply p 100)) ps)"
  by (induction ps) (auto intro: percent_mono)

lemma nearest_double_0 [simp]: "nearest_double 0 = 0"
  by (simp add: nearest_double_def)

lemma nearest_double_half: "nearest_double (1 / 2) = 1 / 2"
  by (simp add: double_eval)

lemma nearest_double_100: "nearest_double 100 = 100"
  by (simp add: double_eval)

lemma percent_bounds:
  assumes "0 \<le> p" and "p \<le> 1"
  shows "\<exists>n. Math_round (js_multiply p 100) = Finite (of_int n) \<and> 0 \<le> n \<and> n \<le> 100"
proof -
  define d where "d = nearest_double (p * 100)"
  have "nearest_double 0 \<le> d" unfolding d_def using assms by (intro nearest_double_mono) simp
  then have lo: "0 \<le> d" by simp
  have "d \<le> nearest_double 100" unfolding d_def using assms by (intro nearest_double_mono) simp
  then have hi: "d \<le> 100" by (simp add: nearest_double_100)
  have "to_double (p * 100) = Finite d"
    using lo hi by (simp add: to_double_def d_def [symmetric])
  then have "Math_round (js_multiply p 100) = Finite (of_int \<lfloor>d + 1 / 2\<rfloor>)"
    by (simp add: js_multiply_def)
  moreover have "0 \<le> \<lfloor>d + 1 / 2\<rfloor>" using lo by simp
  moreover have "\<lfloor>d + 1 / 2\<rfloor> \<le> 100" using hi by (simp add: floor_le_iff)
  ultimately show ?thesis by blast
qed

lemma frames_at_least_1:
  assumes "1 / 2 \<le> a * b"
  shows "number_le (Finite 1) (Math_round (js_multiply a b))"
proof -
  define d where "d = nearest_double (a * b)"
  have "nearest_double (1 / 2) \<le> d" unfolding d_def using assms by (rule nearest_double_mono)
  then have lo: "1 / 2 \<le> d" by (simp add: nearest_double_half)
  then have "(1::int) \<le> \<lfloor>d + 1 / 2\<rfloor>" by linarith
  then have "(1::real) \<le> of_int \<lfloor>d + 1 / 2\<rfloor>" by linarith
  then show ?thesis
    using lo by (simp add: js_multiply_def to_double_def d_def [symmetric])
qed

text \<open>
  The rounded value is a multiple of the unit in the last place, at most half a unit from
  the exact one.
\<close>

lemma round_half_even_error: "\<bar>of_int (round_half_even m) - m\<bar> \<le> 1 / 2"
  unfolding round_half_even_def Let_def by (auto simp: abs_le_iff)

lemma nearest_double_error:
  "\<bar>nearest_double x - x\<bar> \<le> 2 powi ulp_exponent x / 2"
proof (cases "x = 0")
  case True
  then show ?thesis by (simp add: nearest_double_def)
next
  case False
  define u :: real where "u = 2 powi ulp_exponent x"
  have u: "0 < u" by (simp add: u_def)
  have "nearest_double x - x = (of_int (round_half_even (x / u)) - x / u) * u"
    using False u by (simp add: nearest_double_def u_def [symmetric] algebra_simps)
  then have "\<bar>nearest_double x - x\<bar> = \<bar>of_int (round_half_even (x / u)) - x / u\<bar> * u"
    using u by (simp add: abs_mult)
  also have "\<dots> \<le> 1 / 2 * u"
    using u round_half_even_error [of "x / u"] by (intro mult_right_mono) simp_all
  finally show ?thesis by (simp add: u_def)
qed

text \<open>
  Products that are not doubles: 0.16666666666666666 times 3 is one half, 0.7 times 5 is
  three and a half, 0.015 times 100 is one and a half, and the product of the largest
  power of two with 2 is an infinity.
\<close>

lemma double_product_examples:
  "js_multiply (6004799503160661 / 36028797018963968) 3 = Finite (1 / 2)"
  "js_multiply (3152519739159347 / 4503599627370496) 5 = Finite (7 / 2)"
  "js_multiply (1080863910568919 / 72057594037927936) 100 = Finite (3 / 2)"
  "js_multiply (2 ^ 1023) 2 = PosInfinity"
  by (simp_all add: double_eval)

section \<open>Facts about the runs of main\<close>

lemma do_all_emits: "do_all (map emit evs) s = (Normal (), s\<lparr>trace := trace s @ evs\<rparr>)"
  by (induction evs arbitrary: s) (simp_all add: ret_def andThen_def emit_def)

lemma deliver_eq:
  "deliver label ps s = (Normal (), s\<lparr>trace := trace s @ map (progress_event label) ps\<rparr>)"
  unfolding deliver_def
  by (induction ps arbitrary: s) (simp_all add: ret_def andThen_def emit_def onProgress_def)

lemmas prog_defs = ret_def throw_def process_exit_def andThen_def emit_def lift_def lift_unit_def
  try_catch_def try_finally_def assign_tempProjectDir_def

lemma catch_eq:
  "main_catch_block args err s = (Exited 1, s\<lparr>trace := trace s @ catch_events args err\<rparr>)"
  unfolding main_catch_block_def
  by (simp add: do_all_emits prog_defs)

lemma extract_eq:
  "main_extract e a s =
    (case extractCompositionConfig e a of
       Inl err \<Rightarrow> (Exited 1, s\<lparr>trace := trace s @ [Call_extractCompositionConfig a,
           ErrorMsg [T (''Failed to extract composition config: '' @ message err)]] @ extraction_hint\<rparr>)
     | Inr cfg \<Rightarrow> (Normal cfg, s\<lparr>trace := trace s @ [Call_extractCompositionConfig a,
           Log [[T ''Composition ID''], [T (config_id cfg)]],
           Log [[T ''Duration''],
                [N (Finite (durationInSeconds cfg)), T ''s at '', N (Finite (fps cfg)), T ''fps'']],
           Log [[T ''Resolution''],
                [N (Finite (width cfg)), T ''x'', N (Finite (height cfg))]]]\<rparr>))"
  unfolding main_extract_def 
  by (simp add: do_all_emits prog_defs split: sum.splits)

lemma hints_console: "ev \<in> set (hints m) \<Longrightarrow> \<exists>t. ev = ConsoleLog t"
  by (auto simp: hints_def supported_libraries_def module_hint_def generic_dependency_hint_def
           split: if_splits option.splits)

lemma catch_events_no_call [simp]:
  "Call_cleanupTempProject d \<notin> set (catch_events args err)"
  "Call_createTempProject a c \<notin> set (catch_events args err)"
  by (auto simp: catch_events_def dest: hints_console)

lemma extraction_hint_no_call [simp]:
  "Call_cleanupTempProject d \<notin> set extraction_hint"
  "Call_createTempProject a c \<notin> set extraction_hint"
  by (auto simp: extraction_hint_def)

lemma progress_no_call [simp]:
  "Call_cleanupTempProject d \<notin> progress_event label ` A"
  "Call_createTempProject a c \<notin> progress_event label ` A"
  by (auto simp: progress_event_def)

lemma rendered_append [simp]: "rendered (xs @ ys) = rendered xs @ rendered ys"
  by (induction xs rule: rendered.induct) simp_all

lemma rendered_progress [simp]: "rendered (map (progress_event label) ps) = []"
  by (induction ps) (simp_all add: progress_event_def)

lemma rendered_console: "\<forall>ev\<in>set evs. \<exists>t. ev = ConsoleLog t \<Longrightarrow> rendered evs = []"
  by (induction evs) auto

lemma rendered_catch [simp]: "rendered (catch_events args err) = []"
  by (simp add: catch_events_def rendered_console hints_console)

lemma rendered_hint [simp]: "rendered extraction_hint = []"
  by (simp add: extraction_hint_def)

lemma reported_append [simp]: "reported l (xs @ ys) = reported l xs @ reported l ys"
  by (induction l xs rule: reported.induct) simp_all

lemma reported_progress [simp]:
  "reported l (map (progress_event label) ps) =
     (if label = l then map (\<lambda>p. Math_round (js_multiply p 100)) ps else [])"
  by (induction ps) (auto simp: progress_event_def)

lemma reported_console: "\<forall>ev\<in>set evs. \<exists>t. ev = ConsoleLog t \<Longrightarrow> reported l evs = []"
  by (induction evs) auto

lemma reported_catch [simp]: "reported l (catch_events args err) = []"
  by (simp add: catch_events_def reported_console hints_console)

lemma reported_hint [simp]: "reported l extraction_hint = []"
  by (simp add: extraction_hint_def)

lemmas main_unfold = deliver_eq catch_eq extract_eq usage_def main_finally_block_def prog_defs Let_def

lemma cleanup_never_called: "Call_cleanupTempProject d \<notin> set (events e argv)"
  unfolding events_def run_def main_def main_try_block_def
  by (simp add: main_unfold split: option.splits sum.splits prod.splits)

lemma exit_status_eq:
  "exit_status e argv = (case failure_of e argv of None \<Rightarrow> 0 | Some f \<Rightarrow> 1)"
  unfolding exit_status_def run_def main_def failure_of_def main_try_block_def
  by (simp add: main_unfold split: option.splits sum.splits prod.splits)

lemma rendered_member:
  assumes "opts \<in> set (rendered (events e argv))"
  shows "\<exists>args a out cfg dir loc selected.
           parseArgs argv = Inr args \<and> truthy (inputPath_of args)
         \<and> resolve_value e (inputPath_of args) = Inr a \<and> validateTsxFile e a = None
         \<and> outputPath_of e args a = Inr out \<and> extractCompositionConfig e a = Inr cfg
         \<and> snd (ensureBrowser e) = None \<and> createTempProject e a cfg = Inr dir
         \<and> snd (bundleProject e (entryPoint_of dir)) = Inr loc
         \<and> selectComposition e loc (config_id cfg) = Inr selected
         \<and> rendered (events e argv) = [opts]
         \<and> opts = render_options_of cfg selected loc out"
  using assms
  unfolding events_def run_def main_def main_try_block_def
  by (auto simp: main_unfold split: option.splits sum.splits prod.splits if_splits)

lemma rendered_when_done:
  assumes "failure_of e argv = None"
  shows "rendered (events e argv) \<noteq> []"
  using assms
  unfolding events_def run_def main_def failure_of_def main_try_block_def
  by (auto simp: main_unfold split: option.splits sum.splits prod.splits if_splits)

lemma try_failure_events:
  assumes "failure_of e argv = Some (ph, err)" and "in_try_block ph"
  shows "\<exists>args pre. parseArgs argv = Inr args \<and> events e argv = pre @ catch_events args err
           \<and> (\<forall>t. ConsoleLog [T t] \<in> set pre \<longrightarrow> t = [])"
  using assms
  unfolding events_def run_def main_def failure_of_def main_try_block_def
  by (auto simp: main_unfold progress_event_def split: option.splits sum.splits prod.splits if_splits)

lemma reported_early:
  assumes "failure_of e argv = Some (ph, err)"
  shows "ph \<noteq> Bundling \<Longrightarrow> ph \<noteq> Selecting \<Longrightarrow> ph \<noteq> Rendering
           \<Longrightarrow> reported ''Bundling: '' (events e argv) = []"
    and "ph \<noteq> Rendering \<Longrightarrow> reported ''Rendering: '' (events e argv) = []"
  using assms
  unfolding events_def run_def main_def failure_of_def main_try_block_def
  by (auto simp: main_unfold split: option.splits sum.splits prod.splits if_splits)

lemma reported_bundling:
  "reported ''Bundling: '' (events e argv) = [] \<or>
   (\<exists>dir. reported ''Bundling: '' (events e argv)
       = map (\<lambda>p. Math_round (js_multiply p 100)) (fst (bundleProject e (entryPoint_of dir))))"
  unfolding events_def run_def main_def main_try_block_def
  by (simp add: main_unfold split: option.splits sum.splits prod.splits) blast

lemma reported_rendering:
  "reported ''Rendering: '' (events e argv) = [] \<or>
   (\<exists>opts. reported ''Rendering: '' (events e argv)
       = map (\<lambda>p. Math_round (js_multiply p 100)) (fst (renderMedia e opts)))"
  unfolding events_def run_def main_def main_try_block_def
  by (simp add: main_unfold split: option.splits sum.splits prod.splits) blast

lemma reach_staging:
  assumes "parseArgs argv = Inr args" and "truthy (inputPath_of args)"
    and "resolve_value e (inputPath_of args) = Inr a" and "validateTsxFile e a = None"
    and "outputPath_of e args a = Inr out" and "extractCompositionConfig e a = Inr cfg"
    and "snd (ensureBrowser e) = None" and "createTempProject e a cfg = Inr dir"
  shows "Call_createTempProject a cfg \<in> set (events e argv)"
    and "tempProjectDir (snd (run e argv)) = Some dir"
    and "reported ''Bundling: '' (events e argv)
           = map (\<lambda>p. Math_round (js_multiply p 100)) (fst (bundleProject e (entryPoint_of dir)))"
  unfolding events_def run_def main_def main_try_block_def
  by (simp_all add: main_unfold assms split: option.splits sum.splits prod.splits)

lemma reach_rendering:
  assumes "parseArgs argv = Inr args" and "truthy (inputPath_of args)"
    and "resolve_value e (inputPath_of args) = Inr a" and "validateTsxFile e a = None"
    and "outputPath_of e args a = Inr out" and "extractCompositionConfig e a = Inr cfg"
    and "snd (ensureBrowser e) = None" and "createTempProject e a cfg = Inr dir"
    and "snd (bundleProject e (entryPoint_of dir)) = Inr loc"
    and "selectComposition e loc (config_id cfg) = Inr selected"
  shows "rendered (events e argv) = [render_options_of cfg selected loc out]"
    and "reported ''Rendering: '' (events e argv)
           = map (\<lambda>p. Math_round (js_multiply p 100))
               (fst (renderMedia e (render_options_of cfg selected loc out)))"
  unfolding events_def run_def main_def main_try_block_def
  by (simp_all add: main_unfold assms split: option.splits sum.splits prod.splits)

lemma extraction_failure:
  assumes "parseArgs argv = Inr args" and "truthy (inputPath_of args)"
    and "resolve_value e (inputPath_of args) = Inr a" and "validateTsxFile e a = None"
    and "outputPath_of e args a = Inr out" and "extractCompositionConfig e a = Inl err"
  shows "fst (run e argv) = Exited 1"
    and "ErrorMsg [T (''Failed to extract composition config: '' @ message err)] \<in> set (events e argv)"
    and "Call_createTempProject a' cfg \<notin> set (events e argv)"
  unfolding events_def run_def main_def main_try_block_def
  by (simp_all add: main_unfold assms split: option.splits sum.splits prod.splits)

lemma no_input_run:
  assumes "parseArgs argv = Inr args" and "\<not> truthy (inputPath_of args)"
  shows "run e argv =
     (Exited 1,
      \<lparr>trace = [Banner [T ''Remotion Video Renderer''],
                ErrorMsg [T ''No input file specified''],
                ConsoleLog [T []],
                ConsoleLog [T ''  Usage: render-cli.js --input=file.tsx [--output=output.mp4]''],
                ConsoleLog [T []]],
       tempProjectDir = None\<rparr>)"
  unfolding run_def main_def
  by (simp add: main_unfold assms)

section \<open>Facts about parseArgs\<close>

lemma indexOf_append_fresh:
  "c \<notin> set xs \<Longrightarrow> indexOf (xs @ c # ys) c = int (length xs)"
  by (induction xs) (auto simp: Let_def)

lemma indexOf_absent: "c \<notin> set xs \<Longrightarrow> indexOf xs c = -1"
  by (induction xs) (auto simp: Let_def)

lemma assign_shape:
  assumes "CHR ''='' \<notin> set key" and arg_def: "arg = ''--'' @ key @ ''='' @ v"
  shows "startsWith arg ''--''" and "indexOf arg CHR ''='' = int (length key) + 2"
    and "slice arg 2 (length key + 2) = key" and "slice_from arg (length key + 3) = v"
proof -
  show "startsWith arg ''--''" by (simp add: arg_def startsWith_def)
  have "indexOf ((''--'' @ key) @ CHR ''='' # v) CHR ''='' = int (length (''--'' @ key))"
    using assms(1) by (intro indexOf_append_fresh) auto
  then show "indexOf arg CHR ''='' = int (length key) + 2" by (simp add: arg_def)
  show "slice arg 2 (length key + 2) = key"
    by (simp add: arg_def slice_def eval_nat_numeral)
  show "slice_from arg (length key + 3) = v"
    by (simp add: arg_def slice_from_def eval_nat_numeral)
qed

lemma parse_arg_assign:
  assumes "CHR ''='' \<notin> set key"
  shows "parse_arg args (''--'' @ key @ ''='' @ v) = Inr (prop_set args key (JStr (strip_quotes v)))"
proof -
  define arg where "arg = ''--'' @ key @ ''='' @ v"
  note sh = assign_shape [OF assms arg_def]
  have "parse_arg args arg = Inr (prop_set args key (JStr (strip_quotes v)))"
    unfolding parse_arg_def Let_def using sh by (simp add: nat_add_distrib add.commute)
  then show ?thesis unfolding arg_def .
qed

lemma parse_arg_flag:
  assumes "CHR ''='' \<notin> set flag"
  shows "parse_arg args (''--'' @ flag) = Inr (prop_set args flag JTrue)"
proof -
  have "indexOf (''--'' @ flag) CHR ''='' = -1"
    using assms by (intro indexOf_absent) auto
  then show ?thesis
    by (simp add: parse_arg_def startsWith_def slice_from_def Let_def)
qed

lemma parse_arg_other_key:
  assumes "parse_arg a x = Inr a'" and "option_key x \<noteq> Some k" and "k \<noteq> ''_positional''"
  shows "a' k = a k"
  using assms
  by (auto simp: option_key_def parse_arg_def prop_set_def Let_def split: if_splits js_value.splits)

lemma parse_loop_other_key:
  assumes "parse_loop a xs = Inr a'" and "\<forall>x\<in>set xs. option_key x \<noteq> Some k" and "k \<noteq> ''_positional''"
  shows "a' k = a k"
  using assms
proof (induction xs arbitrary: a)
  case Nil
  then show ?case by simp
next
  case (Cons x xs)
  from Cons.prems(1) obtain b where b: "parse_arg a x = Inr b" and rest: "parse_loop b xs = Inr a'"
    by (auto split: sum.splits)
  have "a' k = b k" using Cons.IH [OF rest] Cons.prems by simp
  moreover have "b k = a k" using parse_arg_other_key [OF b] Cons.prems by simp
  ultimately show ?case by simp
qed

lemma parse_loop_append:
  "parse_loop a (xs @ ys) = (case parse_loop a xs of Inl err \<Rightarrow> Inl err | Inr b \<Rightarrow> parse_loop b ys)"
  by (induction xs arbitrary: a) (auto split: sum.splits)

lemma parse_arg_positional_store:
  assumes "option_key x \<noteq> Some ''_positional''"
    and "a ''_positional'' = (if ps = [] then None else Some (JArr ps))"
  shows "\<exists>b. parse_arg a x = Inr b
            \<and> b ''_positional'' = (if ps @ filter positional [x] = [] then None else Some (JArr (ps @ filter positional [x])))
            \<and> (option_key x \<noteq> Some ''input'' \<longrightarrow> b ''input'' = a ''input'')"
  using assms
  by (auto simp: option_key_def parse_arg_def prop_set_def prop_get_def positional_def Let_def
           split: if_splits)

lemma parse_loop_positional_store:
  assumes "\<forall>x\<in>set xs. option_key x \<noteq> Some ''_positional''"
    and "a ''_positional'' = (if ps = [] then None else Some (JArr ps))"
  shows "\<exists>b. parse_loop a xs = Inr b
            \<and> b ''_positional'' = (if ps @ filter positional xs = [] then None else Some (JArr (ps @ filter positional xs)))
            \<and> ((\<forall>x\<in>set xs. option_key x \<noteq> Some ''input'') \<longrightarrow> b ''input'' = a ''input'')"
  using assms
proof (induction xs arbitrary: a ps)
  case Nil
  then show ?case by simp
next
  case (Cons x xs)
  obtain b where b: "parse_arg a x = Inr b"
    and bp: "b ''_positional'' = (if ps @ filter positional [x] = [] then None else Some (JArr (ps @ filter positional [x])))"
    and bi: "option_key x \<noteq> Some ''input'' \<longrightarrow> b ''input'' = a ''input''"
    using parse_arg_positional_store [of x a ps] Cons.prems by auto
  obtain c where c: "parse_loop b xs = Inr c"
    and cp: "c ''_positional'' = (if (ps @ filter positional [x]) @ filter positional xs = [] then None
                                   else Some (JArr ((ps @ filter positional [x]) @ filter positional xs)))"
    and ci: "(\<forall>x\<in>set xs. option_key x \<noteq> Some ''input'') \<longrightarrow> c ''input'' = b ''input''"
    using Cons.IH [of b "ps @ filter positional [x]"] Cons.prems bp by auto
  show ?case using b c cp ci bi by auto
qed

lemmas parse_eval = parseArgs_def parse_arg_def startsWith_def slice_def slice_from_def
  strip_quotes_def strip_trailing_quote_def is_quote_def prop_set_def prop_get_def Let_def

lemma strip_quotes_layer:
  assumes "is_quote q" and "is_quote q'"
  shows "strip_quotes (q # inner @ [q']) = inner"
  using assms by (simp add: strip_quotes_def strip_trailing_quote_def)

lemma strip_quotes_plain:
  assumes "v = [] \<or> (\<not> is_quote (hd v) \<and> \<not> is_quote (last v))"
  shows "strip_quotes v = v"
  using assms by (auto simp: strip_quotes_def strip_trailing_quote_def)

lemma parse_last_assignment:
  assumes "parseArgs argv = Inr parsed" and "drop 2 argv = pre @ [arg] @ post"
    and "\<And>a. parse_arg a arg = Inr (prop_set a key v)"
    and "\<forall>x\<in>set post. option_key x \<noteq> Some key"
    and "key \<noteq> ''__proto__''" and "key \<noteq> ''_positional''"
  shows "prop_get parsed key = v"
proof -
  from assms(1,2) have "parse_loop Map.empty (pre @ arg # post) = Inr parsed"
    by (simp add: parseArgs_def)
  then obtain a where "parse_loop a (arg # post) = Inr parsed"
    by (auto simp: parse_loop_append split: sum.splits)
  with assms(3) [of a] have "parse_loop (prop_set a key v) post = Inr parsed"
    by simp
  from parse_loop_other_key [OF this assms(4) assms(6)] assms(5)
  show ?thesis by (simp add: prop_set_def prop_get_def)
qed

lemmas option_eval = option_key_def startsWith_def slice_def slice_from_def Let_def

section \<open>The sample runs, evaluated\<close>

lemmas path_eval = path_resolve_def normalizeString_def normalize_step_def path_join_def
  path_normalize_def path_dirname_def path_basename_def endsWith_def

lemma demo_args: "parseArgs demo_argv = Inr [''input'' \<mapsto> JStr ''demo.tsx'']"
  by (simp add: demo_argv_def parse_eval)

lemma demo_input: "inputPath_of [''input'' \<mapsto> JStr ''demo.tsx''] = JStr ''demo.tsx''"
  by (simp add: inputPath_of_def prop_get_def js_or_def)

lemma demo_abs: "path_resolve ''/home/u'' [''demo.tsx''] = ''/home/u/demo.tsx''"
  by (simp add: path_eval Let_def)

lemma demo_out:
  "generateOutputPath ''/home/u/demo.tsx'' (clock demo_env) = ''/home/u/demo_2026-11-02T09-05-07.mp4''"
  by (simp add: generateOutputPath_def demo_env_def path_eval toISOString_def pad_def digit_char_def
      replace_colon_period_def slice_def Let_def)

lemma demo_entry: "entryPoint_of ''/tmp/remotion-1'' = ''/tmp/remotion-1/src/index.ts''"
  by (simp add: entryPoint_of_def path_eval Let_def)

lemma sample_start:
  assumes "cwd e = ''/home/u''" and "clock e = clock demo_env"
  shows "resolve_value e (JStr ''demo.tsx'') = Inr ''/home/u/demo.tsx''"
    and "outputPath_of e [''input'' \<mapsto> JStr ''demo.tsx''] ''/home/u/demo.tsx''
           = Inr ''/home/u/demo_2026-11-02T09-05-07.mp4''"
  using assms demo_out
  by (simp_all add: resolve_value_def demo_abs outputPath_of_def prop_get_def)

lemma demo_env_simps:
  "cwd demo_env = ''/home/u''"
  "script_dirname demo_env = ''/opt/renderer''"
  "validateTsxFile demo_env = (\<lambda>p. None)"
  "extractCompositionConfig demo_env = (\<lambda>p. Inr demo_config)"
  "ensureBrowser demo_env = ([], None)"
  "createTempProject demo_env = (\<lambda>p cfg. Inr ''/tmp/remotion-1'')"
  "bundleProject demo_env = (\<lambda>p. ([0, 1 / 2, 1], Inr ''/tmp/bundle''))"
  "selectComposition demo_env =
     (\<lambda>url i. Inr \<lparr>comp_id = i, comp_durationInFrames = Finite 1, comp_fps = 1,
                     comp_width = 1, comp_height = 1, comp_props = ''{}''\<rparr>)"
  "renderMedia demo_env = (\<lambda>opts. ([1 / 2, 1], None))"
  by (simp_all add: demo_env_def)

lemmas demo_start = demo_args demo_input sample_start demo_entry demo_env_simps

lemmas other_envs = short_env_def no_fps_env_def erratic_env_def
  bare_unresolved_env_def module_not_found_env_def unnamed_dependency_env_def
  empty_name_first_env_def

lemma find_the_only:
  assumes "f \<in> set xs" and "P f" and "\<forall>g\<in>set xs. g \<noteq> f \<longrightarrow> \<not> P g"
  shows "find P xs = Some f"
  using assms by (induction xs) auto

lemma option_not_positional: "option_key x = Some k \<Longrightarrow> \<not> positional x"
  by (auto simp: option_key_def positional_def split: if_splits)

lemma no_input_supplied:
  assumes "\<forall>x\<in>set (drop 2 argv). \<exists>k. option_key x = Some k \<and> k \<noteq> ''input'' \<and> k \<noteq> ''_positional''"
  shows "\<exists>args. parseArgs argv = Inr args \<and> inputPath_of args = JUndefined"
proof -
  have np: "\<forall>x\<in>set (drop 2 argv). option_key x \<noteq> Some ''_positional''"
    and ni: "\<forall>x\<in>set (drop 2 argv). option_key x \<noteq> Some ''input''"
    using assms by auto
  have "filter positional (drop 2 argv) = []"
    using assms by (auto simp: filter_empty_conv dest: option_not_positional)
  with parse_loop_positional_store [of "drop 2 argv" Map.empty "[]"] np ni
  obtain b where "parse_loop Map.empty (drop 2 argv) = Inr b"
    and "b ''_positional'' = None" and "b ''input'' = None"
    by auto
  then show ?thesis
    by (auto simp: parseArgs_def inputPath_of_def prop_get_def js_or_def js_and_def)
qed

lemma sample_staged:
  assumes "cwd e = ''/home/u''" and "clock e = clock demo_env"
    and "validateTsxFile e ''/home/u/demo.tsx'' = None"
    and "extractCompositionConfig e ''/home/u/demo.tsx'' = Inr cfg"
    and "snd (ensureBrowser e) = None"
    and "createTempProject e ''/home/u/demo.tsx'' cfg = Inr dir"
  shows "Call_createTempProject ''/home/u/demo.tsx'' cfg \<in> set (events e demo_argv)"
    and "tempProjectDir (snd (run e demo_argv)) = Some dir"
    and "reported ''Bundling: '' (events e demo_argv)
           = map (\<lambda>p. Math_round (js_multiply p 100)) (fst (bundleProject e (entryPoint_of dir)))"
  using assms
  by (simp_all add: reach_staging [where args = "[''input'' \<mapsto> JStr ''demo.tsx'']"
          and a = "''/home/u/demo.tsx''" and out = "''/home/u/demo_2026-11-02T09-05-07.mp4''"]
        demo_args demo_input sample_start)

lemma sample_rendered:
  assumes "cwd e = ''/home/u''" and "clock e = clock demo_env"
    and "validateTsxFile e ''/home/u/demo.tsx'' = None"
    and "extractCompositionConfig e ''/home/u/demo.tsx'' = Inr cfg"
    and "snd (ensureBrowser e) = None"
    and "createTempProject e ''/home/u/demo.tsx'' cfg = Inr dir"
    and "snd (bundleProject e (entryPoint_of dir)) = Inr loc"
    and "selectComposition e loc (config_id cfg) = Inr selected"
  shows "rendered (events e demo_argv)
           = [render_options_of cfg selected loc ''/home/u/demo_2026-11-02T09-05-07.mp4'']"
    and "reported ''Rendering: '' (events e demo_argv)
           = map (\<lambda>p. Math_round (js_multiply p 100))
               (fst (renderMedia e (render_options_of cfg selected loc
                                      ''/home/u/demo_2026-11-02T09-05-07.mp4'')))"
  using assms
  by (simp_all add: reach_rendering [where args = "[''input'' \<mapsto> JStr ''demo.tsx'']"
          and a = "''/home/u/demo.tsx''" and dir = dir]
        demo_args demo_input sample_start)

section \<open>Facts about the override and the hints\<close>

lemma bundle_call_directory:
  "Call_bundle entry dir \<in> set (events e argv) \<Longrightarrow> dir = rendererNodeModules_of e"
  unfolding events_def run_def main_def main_try_block_def
  by (auto simp: main_unfold catch_events_def extraction_hint_def progress_event_def
           dest: hints_console split: option.splits sum.splits prod.splits if_splits)

lemma sample_bundled:
  assumes "cwd e = ''/home/u''" and "clock e = clock demo_env"
    and "validateTsxFile e ''/home/u/demo.tsx'' = None"
    and "extractCompositionConfig e ''/home/u/demo.tsx'' = Inr cfg"
    and "snd (ensureBrowser e) = None"
    and "createTempProject e ''/home/u/demo.tsx'' cfg = Inr dir"
  shows "Call_bundle (entryPoint_of dir) (rendererNodeModules_of e) \<in> set (events e demo_argv)"
  unfolding events_def run_def main_def main_try_block_def
  using assms
  by (simp add: main_unfold demo_args demo_input sample_start
           split: option.splits sum.splits prod.splits)

lemma cant_resolve_nonempty: "cant_resolve \<noteq> []"
  by (simp add: cant_resolve_def)

lemma startsWith_append: "startsWith (p @ s) p"
  by (simp add: startsWith_def)

lemma startsWith_decompose: "startsWith s p \<Longrightarrow> s = p @ drop (length p) s"
  by (metis append_take_drop_id startsWith_def)

lemma match_here_shape:
  assumes "name \<noteq> []" and "CHR 0x27 \<notin> set name"
  shows "match_here (cant_resolve @ name @ [CHR 0x27] @ post) = Some name"
proof -
  have t: "takeWhile (\<lambda>c. c \<noteq> CHR 0x27) (name @ CHR 0x27 # post) = name"
    using assms(2) by (induction name) auto
  have d: "dropWhile (\<lambda>c. c \<noteq> CHR 0x27) (name @ CHR 0x27 # post) = CHR 0x27 # post"
    using assms(2) by (induction name) auto
  show ?thesis
    unfolding match_here_def Let_def
    using assms(1) by (simp add: startsWith_append t d)
qed

lemma match_here_Some:
  assumes "match_here s = Some name"
  shows "\<exists>post. s = cant_resolve @ name @ [CHR 0x27] @ post \<and> name \<noteq> [] \<and> CHR 0x27 \<notin> set name"
proof -
  let ?rest = "drop (length cant_resolve) s"
  let ?P = "\<lambda>c. c \<noteq> CHR 0x27"
  from assms have st: "startsWith s cant_resolve"
    and n: "name = takeWhile ?P ?rest" and ne: "name \<noteq> []" and a: "dropWhile ?P ?rest \<noteq> []"
    by (auto simp: match_here_def Let_def split: if_splits)
  from a have "hd (dropWhile ?P ?rest) = CHR 0x27"
    using hd_dropWhile [of ?P ?rest] by auto
  with a obtain post where p: "dropWhile ?P ?rest = CHR 0x27 # post"
    by (cases "dropWhile ?P ?rest") auto
  have "?rest = takeWhile ?P ?rest @ dropWhile ?P ?rest" by simp
  with n p have "?rest = name @ CHR 0x27 # post" by simp
  with startsWith_decompose [OF st] have "s = cant_resolve @ name @ [CHR 0x27] @ post" by simp
  moreover have "CHR 0x27 \<notin> set name"
    unfolding n by (auto dest: set_takeWhileD)
  ultimately show ?thesis using ne by blast
qed

lemma match_module_step:
  "s \<noteq> [] \<Longrightarrow> match_module s = (case match_here s of Some name \<Rightarrow> Some name | None \<Rightarrow> match_module (tl s))"
  by (cases s) (auto split: option.splits)

lemma match_module_Some:
  "match_module s = Some name \<Longrightarrow>
     \<exists>pre post. s = pre @ cant_resolve @ name @ [CHR 0x27] @ post \<and> name \<noteq> [] \<and> CHR 0x27 \<notin> set name"
proof (induction s)
  case Nil
  then show ?case by simp
next
  case (Cons x xs)
  show ?case
  proof (cases "match_here (x # xs)")
    case None
    with Cons.prems have "match_module xs = Some name" by simp
    from Cons.IH [OF this] obtain pre post
      where "xs = pre @ cant_resolve @ name @ [CHR 0x27] @ post" "name \<noteq> []" "CHR 0x27 \<notin> set name"
      by blast
    then have "x # xs = (x # pre) @ cant_resolve @ name @ [CHR 0x27] @ post" by simp
    with \<open>name \<noteq> []\<close> \<open>CHR 0x27 \<notin> set name\<close> show ?thesis by blast
  next
    case (Some found)
    with Cons.prems have "found = name" by simp
    with Some match_here_Some [of "x # xs" name]
    obtain post where "x # xs = [] @ cant_resolve @ name @ [CHR 0x27] @ post"
      "name \<noteq> []" "CHR 0x27 \<notin> set name"
      by auto
    then show ?thesis by blast
  qed
qed

lemma match_module_finds:
  assumes "name \<noteq> []" and "CHR 0x27 \<notin> set name"
  shows "match_module (pre @ cant_resolve @ name @ [CHR 0x27] @ post) \<noteq> None"
proof (induction pre)
  case Nil
  have "match_module (cant_resolve @ name @ [CHR 0x27] @ post) = Some name"
    using match_here_shape [OF assms, of post] cant_resolve_nonempty
    by (simp add: match_module_step)
  then show ?case by simp
next
  case (Cons x pre)
  then show ?case by (simp split: option.splits)
qed

lemma match_here_Nil [simp]: "match_here [] = None"
  by (simp add: match_here_def startsWith_def cant_resolve_def)

lemma match_module_leftmost:
  assumes "match_here rest = Some name"
    and "\<forall>i<length pre. match_here (drop i (pre @ rest)) = None"
  shows "match_module (pre @ rest) = Some name"
  using assms(2)
proof (induction pre)
  case Nil
  from assms(1) have "rest \<noteq> []" by auto
  with assms(1) show ?case by (simp add: match_module_step)
next
  case (Cons x pre)
  from Cons.prems have "match_here (drop 0 ((x # pre) @ rest)) = None" by blast
  then have here: "match_here (x # pre @ rest) = None" by simp
  have "\<forall>i<length pre. match_here (drop i (pre @ rest)) = None"
  proof (intro allI impI)
    fix i assume "i < length pre"
    then have "Suc i < length (x # pre)" by simp
    with Cons.prems have "match_here (drop (Suc i) ((x # pre) @ rest)) = None" by blast
    then show "match_here (drop i (pre @ rest)) = None" by simp
  qed
  with Cons.IH have "match_module (pre @ rest) = Some name" by simp
  with here show ?case by simp
qed

lemma match_module_leftmost_shape:
  assumes "s = pre @ cant_resolve @ name @ [CHR 0x27] @ post"
    and "name \<noteq> []" and "CHR 0x27 \<notin> set name"
    and least: "\<forall>pre1 name1 post1.
           s = pre1 @ cant_resolve @ name1 @ [CHR 0x27] @ post1 \<and> name1 \<noteq> [] \<and> CHR 0x27 \<notin> set name1
           \<longrightarrow> length pre \<le> length pre1"
  shows "match_module s = Some name"
proof -
  define rest where "rest = cant_resolve @ name @ [CHR 0x27] @ post"
  have s: "s = pre @ rest" by (simp add: assms(1) rest_def)
  have here: "match_here rest = Some name"
    unfolding rest_def by (rule match_here_shape [OF assms(2,3)])
  have "\<forall>i<length pre. match_here (drop i (pre @ rest)) = None"
  proof (intro allI impI)
    fix i assume i: "i < length pre"
    show "match_here (drop i (pre @ rest)) = None"
    proof (rule ccontr)
      assume "match_here (drop i (pre @ rest)) \<noteq> None"
      then obtain name1 where "match_here (drop i (pre @ rest)) = Some name1" by auto
      from match_here_Some [OF this] obtain post1
        where d: "drop i (pre @ rest) = cant_resolve @ name1 @ [CHR 0x27] @ post1"
          and n: "name1 \<noteq> []" "CHR 0x27 \<notin> set name1"
        by blast
      define front where "front = take i (pre @ rest)"
      have len: "length front = i" using i by (simp add: front_def)
      have "s = front @ drop i (pre @ rest)"
        unfolding front_def s by (simp only: append_take_drop_id)
      with d have "s = front @ cant_resolve @ name1 @ [CHR 0x27] @ post1" by (simp only: )
      with least n have "length pre \<le> length front" by blast
      with i len show False by simp
    qed
  qed
  with here show ?thesis unfolding s by (rule match_module_leftmost)
qed

lemma shape_not_before:
  assumes "\<forall>i<n. match_here (drop i s) = None"
    and "s = pre1 @ cant_resolve @ name1 @ [CHR 0x27] @ post1"
    and "name1 \<noteq> []" and "CHR 0x27 \<notin> set name1"
  shows "n \<le> length pre1"
proof (rule ccontr)
  assume "\<not> n \<le> length pre1"
  with assms(1) have "match_here (drop (length pre1) s) = None" by simp
  moreover have "match_here (drop (length pre1) s) = Some name1"
    unfolding assms(2) using match_here_shape [OF assms(3,4), of post1] by simp
  ultimately show False by simp
qed

lemma none_before_Cons:
  "(\<forall>i<Suc n. match_here (drop i (x # s)) = None)
     \<longleftrightarrow> match_here (x # s) = None \<and> (\<forall>i<n. match_here (drop i s) = None)"
  by (auto simp: less_Suc_eq_0_disj)

lemma empty_name_first_skipped: "\<forall>i<46. match_here (drop i empty_name_first) = None"
  unfolding empty_name_first_def cant_resolve_def
  apply (simp only: append.simps)
  apply (simp only: eval_nat_numeral BitM.simps none_before_Cons)
  apply (simp add: match_here_def startsWith_def cant_resolve_def)
  done

lemma no_dependency_hint:
  assumes "\<not> str_includes m ''Module not found'' \<or> str_includes m ''compositionConfig''"
  shows "module_hint n \<notin> set (hints m)" and "generic_dependency_hint \<notin> set (hints m)"
  using assms by (auto simp: hints_def module_hint_def generic_dependency_hint_def)

lemma hint_line_origin:
  assumes "failure_of e argv = Some (ph, err)" and "in_try_block ph"
    and "parseArgs argv = Inr args"
    and "ev = module_hint n \<or> ev = generic_dependency_hint"
    and "ev \<in> set (events e argv)"
  shows "ev \<in> set (hints (message err))
           \<or> (truthy (prop_get args ''verbose'') \<and> ev = ConsoleLog [T (stack err)])"
proof -
  from try_failure_events [OF assms(1,2)] assms(3)
  obtain pre where ev: "events e argv = pre @ catch_events args err"
    and pre: "\<forall>t. ConsoleLog [T t] \<in> set pre \<longrightarrow> t = []"
    by auto
  from assms(4) obtain t where t: "ev = ConsoleLog [T t]" "t \<noteq> []" "t \<noteq> ''  Stack trace:''"
    by (auto simp: module_hint_def generic_dependency_hint_def)
  with pre have "ev \<notin> set pre" by auto
  with assms(5) ev have "ev \<in> set (catch_events args err)" by simp
  with t show ?thesis
    by (auto simp: catch_events_def split: if_splits)
qed

lemma hints_in_events:
  assumes "failure_of e argv = Some (ph, err)" and "in_try_block ph"
  shows "set (hints (message err)) \<subseteq> set (events e argv)"
  using try_failure_events [OF assms] by (auto simp: catch_events_def)

lemma hints_module_not_found:
  assumes "\<not> str_includes m ''compositionConfig''" and "str_includes m ''Module not found''"
  shows "hints m = (case match_module m of Some name \<Rightarrow> [module_hint name]
                     | None \<Rightarrow> [generic_dependency_hint]) @ supported_libraries"
  using assms by (simp add: hints_def)

lemma no_earlier_start:
  assumes "p \<noteq> []" and "hd p \<notin> set pre"
  shows "\<forall>i<length pre. \<not> startsWith (drop i (pre @ rest)) p"
proof (intro allI impI notI)
  fix i assume i: "i < length pre" and s: "startsWith (drop i (pre @ rest)) p"
  from i have d: "drop i (pre @ rest) = pre ! i # (drop (Suc i) pre @ rest)"
    by (simp add: Cons_nth_drop_Suc)
  from assms(1) obtain c cs where p: "p = c # cs" by (cases p) auto
  from s have "hd p = pre ! i"
    unfolding d p by (simp add: startsWith_def)
  with i assms(2) show False by auto
qed

lemma sample_bundling_failure:
  assumes "cwd e = ''/home/u''" and "clock e = clock demo_env"
    and "validateTsxFile e ''/home/u/demo.tsx'' = None"
    and "extractCompositionConfig e ''/home/u/demo.tsx'' = Inr cfg"
    and "snd (ensureBrowser e) = None"
    and "createTempProject e ''/home/u/demo.tsx'' cfg = Inr dir"
    and "snd (bundleProject e (entryPoint_of dir)) = Inl err"
  shows "failure_of e demo_argv = Some (Bundling, err)"
    and "module_hint name \<in> set (events e demo_argv)
           \<longleftrightarrow> module_hint name \<in> set (catch_events [''input'' \<mapsto> JStr ''demo.tsx''] err)"
    and "generic_dependency_hint \<in> set (events e demo_argv)
           \<longleftrightarrow> generic_dependency_hint \<in> set (catch_events [''input'' \<mapsto> JStr ''demo.tsx''] err)"
  unfolding events_def run_def main_def main_try_block_def failure_of_def
  using assms
  by (auto simp: main_unfold demo_args demo_input sample_start module_hint_def
        generic_dependency_hint_def progress_event_def
      split: option.splits sum.splits prod.splits)

lemmas includes_eval = startsWith_def cant_resolve_foo_bar_def cant_resolve_def

section \<open>Facts about paths and timestamps\<close>

lemma split_on_nonempty [simp]: "split_on c xs \<noteq> []"
  by (induction xs) (auto split: list.splits)

lemma split_on_fresh: "c \<notin> set xs \<Longrightarrow> split_on c xs = [xs]"
  by (induction xs) auto

lemma split_on_append: "split_on c (a @ c # b) = split_on c a @ split_on c b"
  by (induction a) (auto split: list.splits)

lemma split_on_no_sep: "s \<in> set (split_on c xs) \<Longrightarrow> c \<notin> set s"
  by (induction xs arbitrary: s) (auto split: list.splits if_splits)

lemma abs_path_snoc: "abs_path (xs @ [seg]) = abs_path xs @ CHR ''/'' # seg"
  by (simp add: abs_path_def)

lemma split_abs_path:
  "\<forall>s\<in>set segs. CHR ''/'' \<notin> set s \<Longrightarrow> split_on CHR ''/'' (abs_path segs) = [] # segs"
proof (induction segs rule: rev_induct)
  case Nil
  then show ?case by (simp add: abs_path_def)
next
  case (snoc s segs)
  then show ?case
    by (simp add: abs_path_snoc split_on_append split_on_fresh)
qed

lemma join_abs_path: "segs \<noteq> [] \<Longrightarrow> ''/'' @ join_with ''/'' segs = abs_path segs"
  by (induction "''/''" segs rule: join_with.induct) (simp_all add: abs_path_def)

lemma normalize_step_normal: "normal_segment s \<Longrightarrow> normalize_step b res s = res @ [s]"
  by (simp add: normalize_step_def normal_segment_def)

lemma normalize_step_empty [simp]: "normalize_step b res [] = res"
  by (simp add: normalize_step_def)

lemma foldl_normal_id:
  "\<forall>s\<in>set segs. normal_segment s \<Longrightarrow> foldl (normalize_step b) res segs = res @ segs"
  by (induction segs arbitrary: res) (simp_all add: normalize_step_normal)

lemma normalize_step_keeps_normal:
  assumes "\<forall>s\<in>set res. normal_segment s" and "CHR ''/'' \<notin> set seg"
  shows "\<forall>s\<in>set (normalize_step False res seg). normal_segment s"
  using assms
  by (auto simp: normalize_step_def normal_segment_def dest: in_set_butlastD)

lemma foldl_keeps_normal:
  assumes "\<forall>s\<in>set res. normal_segment s" and "\<forall>s\<in>set segs. CHR ''/'' \<notin> set s"
  shows "\<forall>s\<in>set (foldl (normalize_step False) res segs). normal_segment s"
  using assms
proof (induction segs arbitrary: res)
  case Nil
  then show ?case by simp
next
  case (Cons seg segs)
  have "\<forall>s\<in>set (normalize_step False res seg). normal_segment s"
    using Cons.prems by (intro normalize_step_keeps_normal) auto
  with Cons.IH [of "normalize_step False res seg"] Cons.prems show ?case by simp
qed

lemma resolve_file:
  assumes "wd \<noteq> [] " and "hd wd = CHR ''/''"
    and "p = q @ fname" and "q = [] \<or> last q = CHR ''/''" and "normal_segment fname"
  shows "\<exists>segs. (\<forall>s\<in>set segs. normal_segment s)
            \<and> path_resolve wd [p] = abs_path segs @ ''/'' @ fname"
proof -
  define full where "full = (if hd p = CHR ''/'' then p else wd @ ''/'' @ p)"
  have pne: "p \<noteq> []" using assms(3,5) by (simp add: normal_segment_def)
  have acc: "resolve_acc (rev [p] @ [wd]) = (full @ ''/'', True)"
    using pne assms(1,2) by (simp add: full_def)
  have "\<exists>q0. full = q0 @ ''/'' @ fname"
  proof (cases "hd p = CHR ''/''")
    case True
    have "q \<noteq> []"
    proof
      assume "q = []"
      with assms(3) True have "hd fname = CHR ''/''" by simp
      with assms(5) show False by (cases fname) (auto simp: normal_segment_def)
    qed
    with assms(4) have "q = butlast q @ ''/''"
      by (metis append_butlast_last_id)
    with True assms(3) show ?thesis
      by (metis append.assoc full_def)
  next
    case False
    from assms(4) show ?thesis
    proof
      assume "q = []"
      with False assms(3) have "full = wd @ ''/'' @ fname" by (simp add: full_def)
      then show ?thesis by blast
    next
      assume l: "last q = CHR ''/''"
      show ?thesis
      proof (cases "q = []")
        case True
        with False assms(3) have "full = wd @ ''/'' @ fname" by (simp add: full_def)
        then show ?thesis by blast
      next
        case qne: False
        with l have "q = butlast q @ ''/''" by (metis append_butlast_last_id)
        then have "full = (wd @ ''/'' @ butlast q) @ ''/'' @ fname"
          using False assms(3) by (metis append.assoc full_def)
        then show ?thesis by blast
      qed
    qed
  qed
  then obtain q0 where full: "full = q0 @ ''/'' @ fname" by blast
  define segs where "segs = foldl (normalize_step False) [] (split_on CHR ''/'' q0)"
  have normal: "\<forall>s\<in>set segs. normal_segment s"
    unfolding segs_def by (intro foldl_keeps_normal) (auto dest: split_on_no_sep)
  have nf: "CHR ''/'' \<notin> set fname" using assms(5) by (simp add: normal_segment_def)
  have "split_on CHR ''/'' (full @ ''/'') = split_on CHR ''/'' q0 @ [fname, []]"
    using nf by (simp add: full split_on_append [of _ "q0"] split_on_append [of _ fname] split_on_fresh)
  then have "foldl (normalize_step False) [] (split_on CHR ''/'' (full @ ''/'')) = segs @ [fname]"
    using assms(5) by (simp add: segs_def normalize_step_normal)
  then have "normalizeString (full @ ''/'') False = join_with ''/'' (segs @ [fname])"
    by (simp add: normalizeString_def)
  with acc have "path_resolve wd [p] = ''/'' @ join_with ''/'' (segs @ [fname])"
    by (simp add: path_resolve_def)
  also have "\<dots> = abs_path (segs @ [fname])" by (rule join_abs_path) simp
  also have "\<dots> = abs_path segs @ ''/'' @ fname" by (simp add: abs_path_snoc)
  finally show ?thesis using normal by blast
qed

lemma abs_path_shape:
  assumes "\<forall>s\<in>set segs. normal_segment s" and "segs \<noteq> []"
  shows "\<exists>c rest. abs_path segs = CHR ''/'' # c # rest"
proof -
  from assms(2) obtain s ss where segs: "segs = s # ss" by (cases segs) auto
  with assms(1) have "s \<noteq> []" by (simp add: normal_segment_def)
  then obtain c cs where "s = c # cs" by (cases s) auto
  with segs show ?thesis by (simp add: abs_path_def)
qed

lemma rev_head_not_slash:
  assumes "fname \<noteq> []" and "CHR ''/'' \<notin> set fname"
  shows "\<exists>c cs. rev fname = c # cs \<and> c \<noteq> CHR ''/''"
proof -
  from assms(1) obtain c cs where r: "rev fname = c # cs" by (cases "rev fname") auto
  then have "c \<in> set (rev fname)" by simp
  then have "c \<in> set fname" by simp
  with assms(2) r show ?thesis by auto
qed

lemma dropWhile_slash_rev:
  assumes "fname \<noteq> []" and "CHR ''/'' \<notin> set fname"
  shows "dropWhile (\<lambda>c. c = CHR ''/'') (rev fname @ rest) = rev fname @ rest"
    and "takeWhile (\<lambda>c. c = CHR ''/'') (rev fname @ rest) = []"
  using rev_head_not_slash [OF assms] by auto

lemma takeWhile_name_rev:
  assumes "CHR ''/'' \<notin> set fname"
  shows "takeWhile (\<lambda>c. c \<noteq> CHR ''/'') (rev fname @ CHR ''/'' # rest) = rev fname"
    and "dropWhile (\<lambda>c. c \<noteq> CHR ''/'') (rev fname @ CHR ''/'' # rest) = CHR ''/'' # rest"
    and "takeWhile (\<lambda>c. c \<noteq> CHR ''/'') (rev fname) = rev fname"
    and "dropWhile (\<lambda>c. c \<noteq> CHR ''/'') (rev fname) = []"
proof -
  have h: "\<And>x. x \<in> set (rev fname) \<Longrightarrow> x \<noteq> CHR ''/''" using assms by auto
  show "takeWhile (\<lambda>c. c \<noteq> CHR ''/'') (rev fname @ CHR ''/'' # rest) = rev fname"
    using h by (subst takeWhile_append2) auto
  show "dropWhile (\<lambda>c. c \<noteq> CHR ''/'') (rev fname @ CHR ''/'' # rest) = CHR ''/'' # rest"
    using h by (subst dropWhile_append2) auto
  show "takeWhile (\<lambda>c. c \<noteq> CHR ''/'') (rev fname) = rev fname"
    using h by (simp add: takeWhile_eq_all_conv)
  show "dropWhile (\<lambda>c. c \<noteq> CHR ''/'') (rev fname) = []"
    using h by (simp add: dropWhile_eq_Nil_conv)
qed

lemma dirname_unfolded:
  assumes "a \<noteq> []"
    and "scanned = dropWhile (\<lambda>c. c \<noteq> CHR ''/'') (dropWhile (\<lambda>c. c = CHR ''/'') (rev (tl a)))"
  shows "path_dirname a =
      (if scanned = [] then (if hd a = CHR ''/'' then ''/'' else ''.'')
       else if hd a = CHR ''/'' \<and> length scanned = 1 then ''//''
       else take (length scanned) a)"
  unfolding path_dirname_def Let_def assms(2) [symmetric]
  using assms(1) by simp

lemma dirname_of_file:
  assumes "\<forall>s\<in>set segs. normal_segment s" and "fname \<noteq> []" and "CHR ''/'' \<notin> set fname"
  shows "path_dirname (abs_path segs @ ''/'' @ fname) = (if segs = [] then ''/'' else abs_path segs)"
proof -
  define a where "a = abs_path segs @ ''/'' @ fname"
  define scanned where
    "scanned = dropWhile (\<lambda>c. c \<noteq> CHR ''/'') (dropWhile (\<lambda>c. c = CHR ''/'') (rev (tl a)))"
  have ane: "a \<noteq> []" by (simp add: a_def)
  note unfolded = dirname_unfolded [OF ane scanned_def]
  show ?thesis
  proof (cases "segs = []")
    case True
    then have t: "tl a = fname" and h: "hd a = CHR ''/''" by (simp_all add: a_def abs_path_def)
    have "scanned = []"
      unfolding scanned_def t
      using dropWhile_slash_rev(1) [OF assms(2,3), of "[]"] takeWhile_name_rev(4) [OF assms(3)]
      by simp
    with unfolded h True show ?thesis by (simp add: a_def)
  next
    case False
    from abs_path_shape [OF assms(1) False] obtain c rest
      where x: "abs_path segs = CHR ''/'' # c # rest" by blast
    have h: "hd a = CHR ''/''" by (simp add: a_def x)
    have "tl a = (c # rest) @ CHR ''/'' # fname" by (simp add: a_def x)
    then have r: "rev (tl a) = rev fname @ CHR ''/'' # rev (c # rest)" by simp
    have sc: "scanned = CHR ''/'' # rev (c # rest)"
      unfolding scanned_def r
      using dropWhile_slash_rev(1) [OF assms(2,3)] takeWhile_name_rev(2) [OF assms(3)] by simp
    have len: "length scanned = length (abs_path segs)" by (simp add: sc x)
    have "take (length (abs_path segs)) a = abs_path segs" by (simp add: a_def)
    moreover have "length (abs_path segs) \<noteq> 1" by (simp add: x)
    moreover have "scanned \<noteq> []" by (simp add: sc)
    ultimately have "path_dirname a = abs_path segs"
      unfolding unfolded len by simp
    with False show ?thesis by (simp add: a_def)
  qed
qed

lemma basename_of_file:
  assumes "CHR ''/'' \<notin> set name"
  shows "path_basename (abs_path segs @ ''/'' @ name @ ''.tsx'') ''.tsx''
           = (if name = [] then ''.tsx'' else name)"
proof -
  define fname where "fname = name @ ''.tsx''"
  have nf: "CHR ''/'' \<notin> set fname" and ne: "fname \<noteq> []"
    using assms by (simp_all add: fname_def)
  define a where "a = abs_path segs @ ''/'' @ fname"
  have r: "rev a = rev fname @ CHR ''/'' # rev (abs_path segs)" by (simp add: a_def)
  have t: "takeWhile (\<lambda>c. c = CHR ''/'') (rev a) = []"
    unfolding r by (rule dropWhile_slash_rev(2) [OF ne nf])
  have b: "rev (takeWhile (\<lambda>c. c \<noteq> CHR ''/'') (dropWhile (\<lambda>c. c = CHR ''/'') (rev a))) = fname"
    unfolding r using dropWhile_slash_rev(1) [OF ne nf] takeWhile_name_rev(1) [OF nf] by simp
  have len: "length ''.tsx'' \<le> length a" by (simp add: a_def fname_def)
  have neq: "''.tsx'' \<noteq> a"
  proof (cases segs)
    case Nil
    then show ?thesis by (simp add: a_def abs_path_def)
  next
    case (Cons s ss)
    then show ?thesis by (simp add: a_def abs_path_def)
  qed
  have e: "endsWith fname ''.tsx''" by (simp add: endsWith_def fname_def)
  have "path_basename a ''.tsx'' = (if name = [] then ''.tsx'' else name)"
    unfolding path_basename_def Let_def b t
    using len neq e by (auto simp: fname_def)
  then show ?thesis by (simp add: a_def fname_def)
qed

lemma join_dir_file:
  assumes "\<forall>s\<in>set segs. normal_segment s" and "normal_segment fname"
  shows "path_join [if segs = [] then ''/'' else abs_path segs, fname] = abs_path segs @ ''/'' @ fname"
proof -
  have nf: "CHR ''/'' \<notin> set fname" and ne: "fname \<noteq> []"
    using assms(2) by (simp_all add: normal_segment_def)
  from ne have "last fname \<in> set fname" by simp
  with nf have lastf: "last fname \<noteq> CHR ''/''" by auto
  show ?thesis
  proof (cases "segs = []")
    case True
    have s: "split_on CHR ''/'' (''//'' @ fname) = [[], [], fname]"
      using nf by (simp add: split_on_fresh)
    have "normalizeString (''//'' @ fname) False = fname"
      unfolding normalizeString_def s using assms(2) by (simp add: normalize_step_normal)
    then have "path_normalize (''//'' @ fname) = ''/'' @ fname"
      using ne lastf by (simp add: path_normalize_def)
    with True ne show ?thesis by (simp add: path_join_def abs_path_def)
  next
    case False
    define d where "d = abs_path segs"
    from abs_path_shape [OF assms(1) False] obtain c rest
      where x: "d = CHR ''/'' # c # rest" unfolding d_def by blast
    have nos: "\<forall>s\<in>set segs. CHR ''/'' \<notin> set s"
      using assms(1) by (simp add: normal_segment_def)
    have "split_on CHR ''/'' (d @ CHR ''/'' # fname) = ([] # segs) @ [fname]"
      unfolding d_def using nf by (simp add: split_on_append split_abs_path [OF nos] split_on_fresh)
    then have "foldl (normalize_step False) [] (split_on CHR ''/'' (d @ CHR ''/'' # fname)) = segs @ [fname]"
      using assms by (simp add: foldl_normal_id normalize_step_normal)
    then have n: "normalizeString (d @ ''/'' @ fname) False = join_with ''/'' (segs @ [fname])"
      by (simp add: normalizeString_def)
    define P where "P = d @ ''/'' @ fname"
    define J where "J = join_with ''/'' (segs @ [fname])"
    have "''/'' @ J = abs_path (segs @ [fname])"
      unfolding J_def by (rule join_abs_path) simp
    then have j: "''/'' @ J = P"
      by (simp add: abs_path_snoc d_def P_def)
    have jne: "J \<noteq> []"
    proof
      assume "J = []"
      with j have "P = ''/''" by simp
      then show False by (simp add: P_def x)
    qed
    have pne: "P \<noteq> []" and l: "last P \<noteq> CHR ''/''" and h: "hd P = CHR ''/''"
      using ne lastf by (simp_all add: P_def x)
    have nP: "normalizeString P False = J"
      using n by (simp add: P_def J_def)
    have "path_normalize P = ''/'' @ J"
      unfolding path_normalize_def Let_def
      using pne l h nP jne by simp
    then have "path_normalize (d @ ''/'' @ fname) = d @ ''/'' @ fname"
      using j by (simp add: P_def)
    moreover have "path_join [d, fname] = path_normalize (d @ ''/'' @ fname)"
      using ne by (simp add: path_join_def x)
    ultimately show ?thesis using False by (simp add: d_def)
  qed
qed

declare digits.simps [simp del]

lemma digit_char_digit: "d < 10 \<Longrightarrow> digit_char d \<in> set ''0123456789''"
  unfolding digit_char_def by (rule nth_mem) simp

lemma digits_chars: "c \<in> set (digits n) \<Longrightarrow> c \<in> set ''0123456789''"
proof (induction n arbitrary: c rule: digits.induct)
  case (1 n)
  show ?case
  proof (cases "n < 10")
    case True
    with "1.prems" have "c = digit_char n" by (subst (asm) digits.simps) simp
    with True show ?thesis using digit_char_digit by blast
  next
    case False
    with "1.prems" have "c \<in> set (digits (n div 10)) \<or> c = digit_char (n mod 10)"
      by (subst (asm) digits.simps) auto
    then show ?thesis
    proof
      assume "c \<in> set (digits (n div 10))"
      with "1.IH" [OF False] show ?thesis by blast
    next
      assume "c = digit_char (n mod 10)"
      then show ?thesis using digit_char_digit [of "n mod 10"] by simp
    qed
  qed
qed

lemma digits_length: "n < 10 ^ k \<Longrightarrow> 0 < k \<Longrightarrow> length (digits n) \<le> k"
proof (induction k arbitrary: n)
  case 0
  then show ?case by simp
next
  case (Suc k)
  show ?case
  proof (cases "n < 10")
    case True
    then have "digits n = [digit_char n]" by (subst digits.simps) simp
    then show ?thesis by simp
  next
    case False
    then have d: "digits n = digits (n div 10) @ [digit_char (n mod 10)]"
      by (subst digits.simps) simp
    from False Suc.prems have k: "0 < k" by (cases k) auto
    from Suc.prems have "n div 10 < 10 ^ k" by (simp add: less_mult_imp_div_less mult.commute)
    from Suc.IH [OF this k] d show ?thesis by simp
  qed
qed

lemma pad_length: "n < 10 ^ k \<Longrightarrow> 0 < k \<Longrightarrow> length (pad k n) = k"
  using digits_length [of n k] by (simp add: pad_def del: digits.simps)

lemma pad_chars: "c \<in> set (pad k n) \<Longrightarrow> c \<in> set ''0123456789''"
  using digits_chars [of c n] by (auto simp: pad_def simp del: digits.simps)

lemma replace_pad: "replace_colon_period (pad k n) = pad k n"
  unfolding replace_colon_period_def
  by (rule map_idI) (auto dest!: pad_chars)

lemma replace_append: "replace_colon_period (a @ b) = replace_colon_period a @ replace_colon_period b"
  by (simp add: replace_colon_period_def)

lemma timestamp_fields:
  assumes "valid_time t"
  shows "length (pad 4 (year t)) = 4" "length (pad 2 (month t)) = 2" "length (pad 2 (day t)) = 2"
    "length (pad 2 (hours t)) = 2" "length (pad 2 (minutes t)) = 2" "length (pad 2 (seconds t)) = 2"
  using assms by (simp_all add: valid_time_def pad_length)

lemma timestamp_length: "valid_time t \<Longrightarrow> length (second_precision_timestamp t) = 19"
  by (simp add: second_precision_timestamp_def timestamp_fields)

lemma timestamp_no_slash: "CHR ''/'' \<notin> set (second_precision_timestamp t)"
  by (auto simp: second_precision_timestamp_def dest!: pad_chars)

lemma timestamp_of_iso:
  assumes "valid_time t"
  shows "slice (replace_colon_period (toISOString t)) 0 19 = second_precision_timestamp t"
    and "replace_colon_period (take 19 (toISOString t)) = second_precision_timestamp t"
proof -
  have y: "year t \<le> 9999" using assms by (simp add: valid_time_def)
  have r: "replace_colon_period (toISOString t)
             = second_precision_timestamp t @ ''-'' @ pad 3 (millis t) @ ''Z''"
    using y
    by (simp add: toISOString_def second_precision_timestamp_def replace_append replace_pad)
       (simp add: replace_colon_period_def replace_pad [unfolded replace_colon_period_def])
  show "slice (replace_colon_period (toISOString t)) 0 19 = second_precision_timestamp t"
    unfolding r slice_def using timestamp_length [OF assms] by simp
  then show "replace_colon_period (take 19 (toISOString t)) = second_precision_timestamp t"
    by (simp add: slice_def replace_colon_period_def take_map)
qed

lemma output_segment_normal:
  assumes "valid_time t" and "CHR ''/'' \<notin> set base"
  shows "normal_segment (base @ ''_'' @ second_precision_timestamp t @ ''.mp4'')"
proof -
  let ?seg = "base @ ''_'' @ second_precision_timestamp t @ ''.mp4''"
  have "length ?seg \<ge> 24" using timestamp_length [OF assms(1)] by simp
  then have "?seg \<noteq> []" "?seg \<noteq> ''.''" "?seg \<noteq> ''..''" by auto
  moreover have "CHR ''/'' \<notin> set ?seg" using assms(2) timestamp_no_slash [of t] by simp
  ultimately show ?thesis by (simp add: normal_segment_def)
qed

lemma generateOutputPath_resolved:
  assumes "\<forall>s\<in>set segs. normal_segment s" and "CHR ''/'' \<notin> set name" and "valid_time t"
  shows "generateOutputPath (abs_path segs @ ''/'' @ name @ ''.tsx'') t
           = abs_path segs @ ''/'' @ (if name = [] then ''.tsx'' else name)
             @ ''_'' @ second_precision_timestamp t @ ''.mp4''"
proof -
  define base where "base = (if name = [] then ''.tsx'' else name)"
  have nb: "CHR ''/'' \<notin> set base" using assms(2) by (simp add: base_def)
  have d: "path_dirname (abs_path segs @ ''/'' @ name @ ''.tsx'')
             = (if segs = [] then ''/'' else abs_path segs)"
    using dirname_of_file [OF assms(1), of "name @ ''.tsx''"] assms(2) by simp
  have b: "path_basename (abs_path segs @ ''/'' @ name @ ''.tsx'') ''.tsx'' = base"
    unfolding base_def by (rule basename_of_file [OF assms(2)])
  note j = join_dir_file [OF assms(1) output_segment_normal [OF assms(3) nb]]
  show ?thesis
    unfolding generateOutputPath_def Let_def d b timestamp_of_iso(1) [OF assms(3)]
    using j by (simp add: base_def)
qed

section \<open>The claims\<close>

subsection \<open>Command-line arguments\<close>

text \<open>
  Claim C9.  When the command line has an argument \<^verbatim>\<open>--input=<path>\<close> with a non-empty
  path, the last such argument gives the input path, whatever positional arguments stand
  beside it.  When no argument assigns \<^verbatim>\<open>input\<close> (and none writes the property that keeps
  the positional arguments), the input path is the first positional argument, and there
  is none when there is no positional argument.  The positional argument is looked at
  only when the value of \<^verbatim>\<open>--input\<close> is missing or empty.
\<close>

theorem input_option_takes_precedence:
  assumes "parseArgs argv = Inr args"
  shows "(drop 2 argv = pre @ [''--input='' @ v] @ post
            \<and> (\<forall>x\<in>set post. option_key x \<noteq> Some ''input'') \<and> strip_quotes v \<noteq> []
          \<longrightarrow> inputPath_of args = JStr (strip_quotes v))
       \<and> ((\<forall>x\<in>set (drop 2 argv). option_key x \<noteq> Some ''input'' \<and> option_key x \<noteq> Some ''_positional'')
          \<longrightarrow> inputPath_of args =
                (case filter positional (drop 2 argv) of [] \<Rightarrow> JUndefined | p # ps \<Rightarrow> JStr p))
       \<and> (truthy (prop_get args ''input'') \<longrightarrow> inputPath_of args = prop_get args ''input'')"
proof (intro conjI impI)
  assume h: "drop 2 argv = pre @ [''--input='' @ v] @ post
            \<and> (\<forall>x\<in>set post. option_key x \<noteq> Some ''input'') \<and> strip_quotes v \<noteq> []"
  from assms h have "parse_loop Map.empty (pre @ [''--input='' @ v] @ post) = Inr args"
    by (simp add: parseArgs_def)
  then obtain a where "parse_loop Map.empty pre = Inr a"
    and rest: "parse_loop a ((''--input='' @ v) # post) = Inr args"
    by (auto simp: parse_loop_append split: sum.splits)
  have step: "parse_arg a (''--input='' @ v) = Inr (prop_set a ''input'' (JStr (strip_quotes v)))"
    using parse_arg_assign [of "''input''" a v] by simp
  with rest have "parse_loop (prop_set a ''input'' (JStr (strip_quotes v))) post = Inr args"
    by simp
  from parse_loop_other_key [OF this, of "''input''"] h
  have "args ''input'' = Some (JStr (strip_quotes v))"
    by (simp add: prop_set_def)
  with h show "inputPath_of args = JStr (strip_quotes v)"
    by (simp add: inputPath_of_def prop_get_def js_or_def)
next
  assume h: "\<forall>x\<in>set (drop 2 argv). option_key x \<noteq> Some ''input'' \<and> option_key x \<noteq> Some ''_positional''"
  from parse_loop_positional_store [of "drop 2 argv" Map.empty "[]"] h assms
  have p: "args ''_positional'' = (if filter positional (drop 2 argv) = [] then None
            else Some (JArr (filter positional (drop 2 argv))))"
    and i: "args ''input'' = None"
    by (auto simp: parseArgs_def)
  show "inputPath_of args = (case filter positional (drop 2 argv) of [] \<Rightarrow> JUndefined | p # ps \<Rightarrow> JStr p)"
    using p i by (auto simp: inputPath_of_def prop_get_def js_or_def js_and_def split: list.splits)
next
  assume "truthy (prop_get args ''input'')"
  then show "inputPath_of args = prop_get args ''input''"
    by (simp add: inputPath_of_def js_or_def)
qed

theorem input_option_takes_precedence_witness:
  "parseArgs both_argv = Inr [''_positional'' \<mapsto> JArr [''pos.tsx''], ''input'' \<mapsto> JStr ''chosen.tsx'']
   \<and> inputPath_of [''_positional'' \<mapsto> JArr [''pos.tsx''], ''input'' \<mapsto> JStr ''chosen.tsx'']
       = JStr ''chosen.tsx''
   \<and> parseArgs positional_argv
       = Inr [''verbose'' \<mapsto> JTrue, ''_positional'' \<mapsto> JArr [''pos.tsx'', ''other.tsx'']]
   \<and> inputPath_of [''verbose'' \<mapsto> JTrue, ''_positional'' \<mapsto> JArr [''pos.tsx'', ''other.tsx'']]
       = JStr ''pos.tsx''"
proof -
  have p1: "parseArgs both_argv
              = Inr [''_positional'' \<mapsto> JArr [''pos.tsx''], ''input'' \<mapsto> JStr ''chosen.tsx'']"
    by (simp add: both_argv_def parse_eval)
  have p2: "parseArgs positional_argv
              = Inr [''verbose'' \<mapsto> JTrue, ''_positional'' \<mapsto> JArr [''pos.tsx'', ''other.tsx'']]"
    by (simp add: positional_argv_def parse_eval)
  have d1: "drop 2 both_argv = [''pos.tsx''] @ [''--input='' @ ''chosen.tsx''] @ []"
    by (simp add: both_argv_def)
  have s1: "strip_quotes ''chosen.tsx'' = ''chosen.tsx''"
    by (simp add: strip_quotes_def strip_trailing_quote_def is_quote_def)
  have o2: "\<forall>x\<in>set (drop 2 positional_argv).
              option_key x \<noteq> Some ''input'' \<and> option_key x \<noteq> Some ''_positional''"
    by (simp add: positional_argv_def option_eval)
  have f2: "filter positional (drop 2 positional_argv) = [''pos.tsx'', ''other.tsx'']"
    by (simp add: positional_argv_def positional_def startsWith_def)
  note t1 = input_option_takes_precedence
    [OF p1, where pre = "[''pos.tsx'']" and v = "''chosen.tsx''" and post = "[]"]
  note t2 = input_option_takes_precedence [OF p2]
  from t1 d1 s1 have "inputPath_of [''_positional'' \<mapsto> JArr [''pos.tsx''], ''input'' \<mapsto> JStr ''chosen.tsx'']
       = JStr ''chosen.tsx''"
    by simp
  moreover from t2 o2 f2
  have "inputPath_of [''verbose'' \<mapsto> JTrue, ''_positional'' \<mapsto> JArr [''pos.tsx'', ''other.tsx'']]
       = JStr ''pos.tsx''"
    by simp
  ultimately show ?thesis using p1 p2 by simp
qed

text \<open>
  Claim C10.  An argument \<^verbatim>\<open>--key=value\<close> assigns to the property \<open>key\<close> the value
  without one quote character, single or double, at its start and one at its end; a value
  without quotes at its ends is assigned as it is.  An argument \<^verbatim>\<open>--flag\<close> without an
  equals sign assigns \<^verbatim>\<open>true\<close>.  The property reads back what the last such argument
  assigned, and \<^verbatim>\<open>--verbose\<close> makes the catch block of \<open>main\<close> print the stack.
\<close>

theorem option_values_and_flags:
  "(CHR ''='' \<notin> set key \<longrightarrow>
      parse_arg args (''--'' @ key @ ''='' @ v) = Inr (prop_set args key (JStr (strip_quotes v))))
 \<and> (is_quote q \<and> is_quote q' \<longrightarrow> strip_quotes (q # inner @ [q']) = inner)
 \<and> (w = [] \<or> (\<not> is_quote (hd w) \<and> \<not> is_quote (last w)) \<longrightarrow> strip_quotes w = w)
 \<and> (CHR ''='' \<notin> set flag \<longrightarrow> parse_arg args (''--'' @ flag) = Inr (prop_set args flag JTrue))
 \<and> (key \<noteq> ''__proto__'' \<longrightarrow> prop_get (prop_set args key x) key = x)
 \<and> (parseArgs argv = Inr parsed \<and> drop 2 argv = pre @ [''--'' @ key @ ''='' @ v] @ post
      \<and> CHR ''='' \<notin> set key \<and> key \<noteq> ''__proto__'' \<and> key \<noteq> ''_positional''
      \<and> (\<forall>x\<in>set post. option_key x \<noteq> Some key)
      \<longrightarrow> prop_get parsed key = JStr (strip_quotes v))
 \<and> (parseArgs argv = Inr parsed \<and> drop 2 argv = pre' @ [''--'' @ flag] @ post'
      \<and> CHR ''='' \<notin> set flag \<and> flag \<noteq> ''__proto__'' \<and> flag \<noteq> ''_positional''
      \<and> (\<forall>x\<in>set post'. option_key x \<noteq> Some flag)
      \<longrightarrow> prop_get parsed flag = JTrue)
 \<and> (prop_get parsed ''verbose'' = JTrue \<longrightarrow>
      ConsoleLog [T (stack err)] \<in> set (trace (snd (main_catch_block parsed err s))))"
proof (intro conjI impI)
  assume "CHR ''='' \<notin> set key"
  then show "parse_arg args (''--'' @ key @ ''='' @ v) = Inr (prop_set args key (JStr (strip_quotes v)))"
    by (rule parse_arg_assign)
next
  assume "is_quote q \<and> is_quote q'"
  then show "strip_quotes (q # inner @ [q']) = inner" by (simp add: strip_quotes_layer)
next
  assume "w = [] \<or> (\<not> is_quote (hd w) \<and> \<not> is_quote (last w))"
  then show "strip_quotes w = w" by (rule strip_quotes_plain)
next
  assume "CHR ''='' \<notin> set flag"
  then show "parse_arg args (''--'' @ flag) = Inr (prop_set args flag JTrue)"
    by (rule parse_arg_flag)
next
  assume "key \<noteq> ''__proto__''"
  then show "prop_get (prop_set args key x) key = x"
    by (simp add: prop_set_def prop_get_def)
next
  assume h: "parseArgs argv = Inr parsed \<and> drop 2 argv = pre @ [''--'' @ key @ ''='' @ v] @ post
      \<and> CHR ''='' \<notin> set key \<and> key \<noteq> ''__proto__'' \<and> key \<noteq> ''_positional''
      \<and> (\<forall>x\<in>set post. option_key x \<noteq> Some key)"
  then have k: "CHR ''='' \<notin> set key" and p: "parseArgs argv = Inr parsed"
    and d: "drop 2 argv = pre @ [''--'' @ key @ ''='' @ v] @ post"
    and o: "\<forall>x\<in>set post. option_key x \<noteq> Some key"
    and n: "key \<noteq> ''__proto__''" "key \<noteq> ''_positional''"
    by blast+
  show "prop_get parsed key = JStr (strip_quotes v)"
    by (rule parse_last_assignment [OF p d parse_arg_assign [OF k] o n])
next
  assume h: "parseArgs argv = Inr parsed \<and> drop 2 argv = pre' @ [''--'' @ flag] @ post'
      \<and> CHR ''='' \<notin> set flag \<and> flag \<noteq> ''__proto__'' \<and> flag \<noteq> ''_positional''
      \<and> (\<forall>x\<in>set post'. option_key x \<noteq> Some flag)"
  then have k: "CHR ''='' \<notin> set flag" and p: "parseArgs argv = Inr parsed"
    and d: "drop 2 argv = pre' @ [''--'' @ flag] @ post'"
    and o: "\<forall>x\<in>set post'. option_key x \<noteq> Some flag"
    and n: "flag \<noteq> ''__proto__''" "flag \<noteq> ''_positional''"
    by blast+
  show "prop_get parsed flag = JTrue"
    by (rule parse_last_assignment [OF p d parse_arg_flag [OF k] o n])
next
  assume "prop_get parsed ''verbose'' = JTrue"
  then show "ConsoleLog [T (stack err)] \<in> set (trace (snd (main_catch_block parsed err s)))"
    by (simp add: catch_eq catch_events_def)
qed

theorem option_values_and_flags_witness:
  "parseArgs quoted_argv = Inr [''output'' \<mapsto> JStr ''o.mp4'', ''verbose'' \<mapsto> JTrue]
   \<and> parse_arg Map.empty (''--output='' @ [CHR 0x22] @ ''o.mp4'' @ [CHR 0x22])
       = Inr [''output'' \<mapsto> JStr ''o.mp4'']
   \<and> strip_quotes (CHR 0x22 # ''o.mp4'' @ [CHR 0x22]) = ''o.mp4''
   \<and> strip_quotes ''o.mp4'' = ''o.mp4''
   \<and> parse_arg Map.empty ''--verbose'' = Inr [''verbose'' \<mapsto> JTrue]
   \<and> prop_get [''output'' \<mapsto> JStr ''o.mp4'', ''verbose'' \<mapsto> JTrue] ''output'' = JStr ''o.mp4''
   \<and> prop_get [''output'' \<mapsto> JStr ''o.mp4'', ''verbose'' \<mapsto> JTrue] ''verbose'' = JTrue
   \<and> ConsoleLog [T ''at main'']
       \<in> set (trace (snd (main_catch_block [''output'' \<mapsto> JStr ''o.mp4'', ''verbose'' \<mapsto> JTrue]
                            (JsError ''Error'' ''boom'' ''at main'')
                            \<lparr>trace = [], tempProjectDir = None\<rparr>)))"
proof -
  have p: "parseArgs quoted_argv = Inr [''output'' \<mapsto> JStr ''o.mp4'', ''verbose'' \<mapsto> JTrue]"
    by (simp add: quoted_argv_def parse_eval)
  have q: "is_quote CHR 0x22" by (simp add: is_quote_def)
  have d: "drop 2 quoted_argv = [] @ [''--'' @ ''output'' @ ''='' @ (CHR 0x22 # ''o.mp4'' @ [CHR 0x22])] @ [''--verbose'']"
    and d': "drop 2 quoted_argv = [''--output='' @ [CHR 0x22] @ ''o.mp4'' @ [CHR 0x22]] @ [''--'' @ ''verbose''] @ []"
    by (simp_all add: quoted_argv_def)
  have o: "\<forall>x\<in>set [''--verbose'']. option_key x \<noteq> Some ''output''"
    by (simp add: option_eval)
  note t = option_values_and_flags
    [where key = "''output''" and v = "CHR 0x22 # ''o.mp4'' @ [CHR 0x22]" and args = Map.empty
       and q = "CHR 0x22" and q' = "CHR 0x22" and inner = "''o.mp4''" and w = "''o.mp4''"
       and flag = "''verbose''" and x = "JStr ''o.mp4''" and argv = quoted_argv
       and parsed = "[''output'' \<mapsto> JStr ''o.mp4'', ''verbose'' \<mapsto> JTrue]"
       and pre = "[]" and post = "[''--verbose'']"
       and pre' = "[''--output='' @ [CHR 0x22] @ ''o.mp4'' @ [CHR 0x22]]" and post' = "[]"
       and err = "JsError ''Error'' ''boom'' ''at main''"
       and s = "\<lparr>trace = [], tempProjectDir = None\<rparr>"]
  from t p q d d' o show ?thesis
    by (simp add: is_quote_def prop_set_def)
qed

subsection \<open>Exit status and the staging directory\<close>

text \<open>
  Claim C6.  When no argument supplies an input (every argument is an option, and none of
  them assigns \<^verbatim>\<open>input\<close> or the property that keeps the positional arguments), the run
  prints the usage message and exits with status 1.  For every run, the status is 0
  exactly when no phase of the pipeline fails, and it is 1 when a phase fails: the
  validation, the extraction, the staging, the bundling, the selection or the rendering
  (and also the browser check, or a command line without a usable path).
\<close>

theorem exit_status_by_pipeline:
  "((\<forall>x\<in>set (drop 2 argv). \<exists>k. option_key x = Some k \<and> k \<noteq> ''input'' \<and> k \<noteq> ''_positional'')
      \<longrightarrow> run e argv =
            (Exited 1,
             \<lparr>trace = [Banner [T ''Remotion Video Renderer''],
                       ErrorMsg [T ''No input file specified''],
                       ConsoleLog [T []],
                       ConsoleLog [T ''  Usage: render-cli.js --input=file.tsx [--output=output.mp4]''],
                       ConsoleLog [T []]],
              tempProjectDir = None\<rparr>))
   \<and> (exit_status e argv = 0 \<longleftrightarrow> failure_of e argv = None)
   \<and> (failure_of e argv = Some (ph, err) \<longrightarrow> exit_status e argv = 1)"
proof (intro conjI impI)
  assume "\<forall>x\<in>set (drop 2 argv). \<exists>k. option_key x = Some k \<and> k \<noteq> ''input'' \<and> k \<noteq> ''_positional''"
  then obtain args where "parseArgs argv = Inr args" and "inputPath_of args = JUndefined"
    using no_input_supplied by blast
  then show "run e argv =
            (Exited 1,
             \<lparr>trace = [Banner [T ''Remotion Video Renderer''],
                       ErrorMsg [T ''No input file specified''],
                       ConsoleLog [T []],
                       ConsoleLog [T ''  Usage: render-cli.js --input=file.tsx [--output=output.mp4]''],
                       ConsoleLog [T []]],
              tempProjectDir = None\<rparr>)"
    by (simp add: no_input_run)
next
  show "exit_status e argv = 0 \<longleftrightarrow> failure_of e argv = None"
    by (simp add: exit_status_eq split: option.splits)
next
  assume "failure_of e argv = Some (ph, err)"
  then show "exit_status e argv = 1"
    by (simp add: exit_status_eq)
qed

theorem exit_status_by_pipeline_witness:
  "run demo_env flag_argv =
     (Exited 1,
      \<lparr>trace = [Banner [T ''Remotion Video Renderer''],
                ErrorMsg [T ''No input file specified''],
                ConsoleLog [T []],
                ConsoleLog [T ''  Usage: render-cli.js --input=file.tsx [--output=output.mp4]''],
                ConsoleLog [T []]],
       tempProjectDir = None\<rparr>)
   \<and> failure_of demo_env demo_argv = None
   \<and> exit_status demo_env demo_argv = 0
   \<and> failure_of bare_unresolved_env demo_argv
       = Some (Bundling, JsError ''Error'' cant_resolve_foo_bar [])
   \<and> exit_status bare_unresolved_env demo_argv = 1"
proof -
  have h: "\<forall>x\<in>set (drop 2 flag_argv). \<exists>k. option_key x = Some k \<and> k \<noteq> ''input'' \<and> k \<noteq> ''_positional''"
    by (simp add: flag_argv_def option_eval)
  have ok: "failure_of demo_env demo_argv = None"
    by (simp add: failure_of_def demo_start)
  have bad: "failure_of bare_unresolved_env demo_argv
               = Some (Bundling, JsError ''Error'' cant_resolve_foo_bar [])"
    by (simp add: failure_of_def demo_start other_envs)
  from exit_status_by_pipeline [of flag_argv demo_env] h
    exit_status_by_pipeline [of demo_argv demo_env] ok
    exit_status_by_pipeline [of demo_argv bare_unresolved_env Bundling "JsError ''Error'' cant_resolve_foo_bar []"] bad
  show ?thesis by simp
qed

text \<open>
  Claim C1 says that a run that has staged its project calls \<^verbatim>\<open>cleanupTempProject\<close> on
  the staging directory before it ends.  The script does not: the \<^verbatim>\<open>try\<close> block ends
  with \<^verbatim>\<open>process.exit(0)\<close> and the \<^verbatim>\<open>catch\<close> block with \<^verbatim>\<open>process.exit(1)\<close>, which end
  the process before the \<^verbatim>\<open>finally\<close> block can run.  In the successful sample run, and
  in the sample run whose bundling fails, \<^verbatim>\<open>createTempProject\<close> is called and returns
  \<^verbatim>\<open>/tmp/remotion-1\<close>, the process exits (with 0 and with 1), and no call of
  \<^verbatim>\<open>cleanupTempProject\<close> is made.
\<close>

theorem staging_directory_not_released:
  "exit_status demo_env demo_argv = 0
   \<and> tempProjectDir (snd (run demo_env demo_argv)) = Some ''/tmp/remotion-1''
   \<and> Call_createTempProject ''/home/u/demo.tsx'' demo_config \<in> set (events demo_env demo_argv)
   \<and> Call_cleanupTempProject ''/tmp/remotion-1'' \<notin> set (events demo_env demo_argv)
   \<and> exit_status module_not_found_env demo_argv = 1
   \<and> tempProjectDir (snd (run module_not_found_env demo_argv)) = Some ''/tmp/remotion-1''
   \<and> Call_createTempProject ''/home/u/demo.tsx'' demo_config
       \<in> set (events module_not_found_env demo_argv)
   \<and> Call_cleanupTempProject ''/tmp/remotion-1'' \<notin> set (events module_not_found_env demo_argv)"
proof -
  have ok: "failure_of demo_env demo_argv = None"
    by (simp add: failure_of_def demo_start)
  have bad: "failure_of module_not_found_env demo_argv \<noteq> None"
    by (simp add: failure_of_def demo_start other_envs)
  have c1: "Call_createTempProject ''/home/u/demo.tsx'' demo_config \<in> set (events demo_env demo_argv)"
    by (rule sample_staged(1) [where dir = "''/tmp/remotion-1''"]) (simp_all add: demo_env_simps)
  have d1: "tempProjectDir (snd (run demo_env demo_argv)) = Some ''/tmp/remotion-1''"
    by (rule sample_staged(2) [where cfg = demo_config]) (simp_all add: demo_env_simps)
  have c2: "Call_createTempProject ''/home/u/demo.tsx'' demo_config
              \<in> set (events module_not_found_env demo_argv)"
    by (rule sample_staged(1) [where dir = "''/tmp/remotion-1''"])
       (simp_all add: demo_env_simps other_envs)
  have d2: "tempProjectDir (snd (run module_not_found_env demo_argv)) = Some ''/tmp/remotion-1''"
    by (rule sample_staged(2) [where cfg = demo_config])
       (simp_all add: demo_env_simps other_envs)
  show ?thesis
    using ok bad c1 d1 c2 d2
    by (simp add: exit_status_eq cleanup_never_called split: option.splits)
qed

text \<open>
  Claim C3.  Take a run that reaches the extraction, on a file whose configuration lacks
  one required field \<open>f\<close> and has the other required fields well typed.  The extraction
  fails with a \<^verbatim>\<open>ConfigExtractionError\<close> whose message names \<open>f\<close>, the run prints it after
  \<^verbatim>\<open>Failed to extract composition config:\<close>, exits with status 1, and never calls
  \<^verbatim>\<open>createTempProject\<close>.  (The extractor is the one modelled from the specification.)
\<close>

theorem missing_field_fails_extraction:
  assumes "parseArgs argv = Inr args" and "truthy (inputPath_of args)"
    and "resolve_value e (inputPath_of args) = Inr a" and "validateTsxFile e a = None"
    and "outputPath_of e args a = Inr out"
    and "extractCompositionConfig e a = extract_fields src"
    and "f \<in> set required_fields" and "src f = None"
    and "\<forall>g\<in>set required_fields. g \<noteq> f \<longrightarrow> field_ok src g"
  shows "extractCompositionConfig e a = Inl (ConfigExtractionError f)
       \<and> err_name (ConfigExtractionError f) = ''ConfigExtractionError''
       \<and> message (ConfigExtractionError f) = ''Missing or invalid field: '' @ f
       \<and> ErrorMsg [T (''Failed to extract composition config: Missing or invalid field: '' @ f)]
           \<in> set (events e argv)
       \<and> fst (run e argv) = Exited 1
       \<and> exit_status e argv = 1
       \<and> (\<forall>p cfg. Call_createTempProject p cfg \<notin> set (events e argv))"
proof -
  have "\<not> field_ok src f" using assms(8) by (simp add: field_ok_def)
  with assms(7,9) have "find (\<lambda>f. \<not> field_ok src f) required_fields = Some f"
    by (intro find_the_only) auto
  then have x: "extractCompositionConfig e a = Inl (ConfigExtractionError f)"
    using assms(6) by (simp add: extract_fields_def)
  note fail = extraction_failure [OF assms(1-5) x]
  have m: "message (ConfigExtractionError f) = ''Missing or invalid field: '' @ f"
    by (simp add: ConfigExtractionError_def)
  show ?thesis
    using x fail m by (simp add: exit_status_def ConfigExtractionError_def)
qed

theorem missing_field_fails_extraction_witness:
  "extractCompositionConfig no_fps_env ''/home/u/demo.tsx'' = Inl (ConfigExtractionError ''fps'')
   \<and> ErrorMsg [T ''Failed to extract composition config: Missing or invalid field: fps'']
       \<in> set (events no_fps_env demo_argv)
   \<and> exit_status no_fps_env demo_argv = 1
   \<and> Call_createTempProject ''/home/u/demo.tsx'' demo_config \<notin> set (events no_fps_env demo_argv)"
proof -
  have h: "\<forall>g\<in>set required_fields. g \<noteq> ''fps'' \<longrightarrow> field_ok no_fps_fields g"
    by (simp add: required_fields_def field_ok_def no_fps_fields_def)
  have "missing": "no_fps_fields ''fps'' = None" and req: "''fps'' \<in> set required_fields"
    by (simp_all add: no_fps_fields_def required_fields_def)
  have x: "extractCompositionConfig no_fps_env ''/home/u/demo.tsx'' = extract_fields no_fps_fields"
    by (simp add: other_envs)
  have env: "resolve_value no_fps_env (inputPath_of [''input'' \<mapsto> JStr ''demo.tsx'']) = Inr ''/home/u/demo.tsx''"
    "validateTsxFile no_fps_env ''/home/u/demo.tsx'' = None"
    "outputPath_of no_fps_env [''input'' \<mapsto> JStr ''demo.tsx''] ''/home/u/demo.tsx''
       = Inr ''/home/u/demo_2026-11-02T09-05-07.mp4''"
    "truthy (inputPath_of [''input'' \<mapsto> JStr ''demo.tsx''])"
    by (simp_all add: demo_start other_envs)
  from missing_field_fails_extraction [OF demo_args env(4) env(1) env(2) env(3) x req "missing" h]
  show ?thesis by simp
qed

subsection \<open>The calls of the collaborators\<close>

text \<open>
  Claim C2 says that the frame count is at least 1 for every valid descriptor.  A
  descriptor of a quarter of a second at one frame per second is valid, and the run passes
  0 frames to \<^verbatim>\<open>renderMedia\<close>.
\<close>

theorem quarter_second_renders_no_frame:
  "valid_config short_config
   \<and> extractCompositionConfig short_env ''/home/u/demo.tsx'' = Inr short_config
   \<and> map (comp_durationInFrames \<circ> composition) (rendered (events short_env demo_argv))
       = [Finite 0]"
proof -
  have v: "valid_config short_config"
    by (simp add: valid_config_def short_config_def)
  have r: "rendered (events short_env demo_argv)
             = [render_options_of short_config
                  \<lparr>comp_id = ''X'', comp_durationInFrames = Finite 1, comp_fps = 1,
                   comp_width = 1, comp_height = 1, comp_props = ''{}''\<rparr>
                  ''/tmp/bundle'' ''/home/u/demo_2026-11-02T09-05-07.mp4'']"
    by (rule sample_rendered [where dir = "''/tmp/remotion-1''"])
       (simp_all add: demo_env_simps other_envs short_config_def)
  have f: "Math_round (js_multiply (1 / 4) 1) = Finite 0"
    by (simp add: double_eval)
  show ?thesis
    using v r f by (simp add: other_envs render_options_of_def short_config_def)
qed

text \<open>
  Claim C2, amended.  Every call of \<^verbatim>\<open>renderMedia\<close> that a run makes is the only one of
  the run, and it is given the composition with
  \<^verbatim>\<open>durationInFrames = Math.round(durationInSeconds * fps)\<close>, the product being the double
  that JavaScript computes, and with the \<^verbatim>\<open>fps\<close>, \<^verbatim>\<open>width\<close> and \<^verbatim>\<open>height\<close> of the
  descriptor that the extraction has returned for the input path of this run; the frame
  count is at least 1 when \<^verbatim>\<open>durationInSeconds * fps\<close> is at least 1/2.  A run in which no
  phase fails makes the call.  For 5 seconds at 30 frames per second the frame count is
  150.
\<close>

theorem frame_count_passed_to_renderMedia:
  "(opts \<in> set (rendered (events e argv)) \<longrightarrow>
      (\<exists>args a out cfg dir loc selected.
           parseArgs argv = Inr args
         \<and> resolve_value e (inputPath_of args) = Inr a
         \<and> outputPath_of e args a = Inr out
         \<and> extractCompositionConfig e a = Inr cfg
         \<and> createTempProject e a cfg = Inr dir
         \<and> snd (bundleProject e (entryPoint_of dir)) = Inr loc
         \<and> selectComposition e loc (config_id cfg) = Inr selected
         \<and> rendered (events e argv) = [opts]
         \<and> opts = render_options_of cfg selected loc out
         \<and> comp_durationInFrames (composition opts)
             = Math_round (js_multiply (durationInSeconds cfg) (fps cfg))
         \<and> (1 / 2 \<le> durationInSeconds cfg * fps cfg
              \<longrightarrow> number_le (Finite 1) (comp_durationInFrames (composition opts)))
         \<and> comp_fps (composition opts) = fps cfg
         \<and> comp_width (composition opts) = width cfg
         \<and> comp_height (composition opts) = height cfg))
   \<and> (failure_of e argv = None \<longrightarrow> rendered (events e argv) \<noteq> [])
   \<and> Math_round (js_multiply (durationInSeconds demo_config) (fps demo_config)) = Finite 150"
proof (intro conjI impI)
  assume m: "opts \<in> set (rendered (events e argv))"
  from rendered_member [OF m]
  obtain args a out cfg dir loc selected where h: "parseArgs argv = Inr args"
      "resolve_value e (inputPath_of args) = Inr a" "outputPath_of e args a = Inr out"
      "extractCompositionConfig e a = Inr cfg" "createTempProject e a cfg = Inr dir"
      "snd (bundleProject e (entryPoint_of dir)) = Inr loc"
      "selectComposition e loc (config_id cfg) = Inr selected"
      "rendered (events e argv) = [opts]"
    and o: "opts = render_options_of cfg selected loc out"
    by blast
  have f: "comp_durationInFrames (composition opts)
             = Math_round (js_multiply (durationInSeconds cfg) (fps cfg))"
      "comp_fps (composition opts) = fps cfg" "comp_width (composition opts) = width cfg"
      "comp_height (composition opts) = height cfg"
    by (simp_all add: o render_options_of_def)
  have g: "1 / 2 \<le> durationInSeconds cfg * fps cfg
             \<longrightarrow> number_le (Finite 1) (comp_durationInFrames (composition opts))"
    unfolding f(1) by (intro impI frames_at_least_1)
  from h o f g
  show "\<exists>args a out cfg dir loc selected.
           parseArgs argv = Inr args
         \<and> resolve_value e (inputPath_of args) = Inr a
         \<and> outputPath_of e args a = Inr out
         \<and> extractCompositionConfig e a = Inr cfg
         \<and> createTempProject e a cfg = Inr dir
         \<and> snd (bundleProject e (entryPoint_of dir)) = Inr loc
         \<and> selectComposition e loc (config_id cfg) = Inr selected
         \<and> rendered (events e argv) = [opts]
         \<and> opts = render_options_of cfg selected loc out
         \<and> comp_durationInFrames (composition opts)
             = Math_round (js_multiply (durationInSeconds cfg) (fps cfg))
         \<and> (1 / 2 \<le> durationInSeconds cfg * fps cfg
              \<longrightarrow> number_le (Finite 1) (comp_durationInFrames (composition opts)))
         \<and> comp_fps (composition opts) = fps cfg
         \<and> comp_width (composition opts) = width cfg
         \<and> comp_height (composition opts) = height cfg"
    by blast
next
  assume "failure_of e argv = None"
  then show "rendered (events e argv) \<noteq> []" by (rule rendered_when_done)
next
  show "Math_round (js_multiply (durationInSeconds demo_config) (fps demo_config)) = Finite 150"
    by (simp add: demo_config_def double_eval)
qed

theorem frame_count_passed_to_renderMedia_witness:
  "rendered (events demo_env demo_argv)
     = [render_options_of demo_config
          \<lparr>comp_id = ''X'', comp_durationInFrames = Finite 1, comp_fps = 1,
           comp_width = 1, comp_height = 1, comp_props = ''{}''\<rparr>
          ''/tmp/bundle'' ''/home/u/demo_2026-11-02T09-05-07.mp4'']
   \<and> map (comp_durationInFrames \<circ> composition) (rendered (events demo_env demo_argv))
       = [Finite 150]
   \<and> list_all (\<lambda>opts. number_le (Finite 1) (comp_durationInFrames (composition opts)))
       (rendered (events demo_env demo_argv))
   \<and> map (comp_fps \<circ> composition) (rendered (events demo_env demo_argv)) = [30]
   \<and> map (comp_width \<circ> composition) (rendered (events demo_env demo_argv)) = [1080]
   \<and> map (comp_height \<circ> composition) (rendered (events demo_env demo_argv)) = [1920]"
proof -
  define opts where "opts = render_options_of demo_config
          \<lparr>comp_id = ''X'', comp_durationInFrames = Finite 1, comp_fps = 1,
           comp_width = 1, comp_height = 1, comp_props = ''{}''\<rparr>
          ''/tmp/bundle'' ''/home/u/demo_2026-11-02T09-05-07.mp4''"
  have ok: "failure_of demo_env demo_argv = None"
    by (simp add: failure_of_def demo_start)
  note t = frame_count_passed_to_renderMedia [of _ demo_env demo_argv]
  from t ok have "rendered (events demo_env demo_argv) \<noteq> []" by blast
  then obtain o' os where r: "rendered (events demo_env demo_argv) = o' # os"
    by (cases "rendered (events demo_env demo_argv)") auto
  then have m: "o' \<in> set (rendered (events demo_env demo_argv))" by simp
  from t [of o'] m
  obtain args a out cfg dir loc selected where h: "parseArgs demo_argv = Inr args"
      "resolve_value demo_env (inputPath_of args) = Inr a"
      "outputPath_of demo_env args a = Inr out"
      "extractCompositionConfig demo_env a = Inr cfg"
      "snd (bundleProject demo_env (entryPoint_of dir)) = Inr loc"
      "selectComposition demo_env loc (config_id cfg) = Inr selected"
    and one: "rendered (events demo_env demo_argv) = [o']"
    and o: "o' = render_options_of cfg selected loc out"
    and f: "comp_durationInFrames (composition o')
             = Math_round (js_multiply (durationInSeconds cfg) (fps cfg))"
      "1 / 2 \<le> durationInSeconds cfg * fps cfg
         \<longrightarrow> number_le (Finite 1) (comp_durationInFrames (composition o'))"
      "comp_fps (composition o') = fps cfg"
      "comp_width (composition o') = width cfg"
      "comp_height (composition o') = height cfg"
    by blast
  from h(1) have args: "args = [''input'' \<mapsto> JStr ''demo.tsx'']" by (simp add: demo_args)
  from h(2) have a: "a = ''/home/u/demo.tsx''" by (simp add: args demo_start)
  from h(3) have out: "out = ''/home/u/demo_2026-11-02T09-05-07.mp4''"
    by (simp add: args a demo_start)
  from h(4) have cfg: "cfg = demo_config" by (simp add: demo_env_simps)
  from h(5) have loc: "loc = ''/tmp/bundle''" by (simp add: demo_env_simps)
  from h(6) have sel: "selected = \<lparr>comp_id = ''X'', comp_durationInFrames = Finite 1, comp_fps = 1,
           comp_width = 1, comp_height = 1, comp_props = ''{}''\<rparr>"
    by (simp add: demo_env_simps cfg demo_config_def)
  have o': "o' = opts" by (simp add: o opts_def cfg loc sel out)
  have half: "1 / 2 \<le> durationInSeconds demo_config * fps demo_config"
    by (simp add: demo_config_def)
  from t have n: "Math_round (js_multiply (durationInSeconds demo_config) (fps demo_config))
                   = Finite 150"
    by blast
  from f half n have "comp_durationInFrames (composition opts) = Finite 150"
    "number_le (Finite 1) (comp_durationInFrames (composition opts))"
    "comp_fps (composition opts) = 30" "comp_width (composition opts) = 1080"
    "comp_height (composition opts) = 1920"
    by (simp_all add: o' [symmetric] cfg demo_config_def)
  with one show ?thesis by (simp add: o' opts_def [symmetric])
qed

text \<open>
  Claim C5 says that the progress values a run reports in a phase never decrease and lie
  between 0 and 1.  When the bundler delivers 1/2, then 1/4, then 3/2, the run prints 50%,
  25% and 150%.
\<close>

theorem erratic_progress_is_reported:
  "fst (bundleProject erratic_env ''/tmp/remotion-1/src/index.ts'') = [1 / 2, 1 / 4, 3 / 2]
   \<and> reported ''Bundling: '' (events erratic_env demo_argv) = [Finite 50, Finite 25, Finite 150]
   \<and> \<not> sorted_wrt number_le (reported ''Bundling: '' (events erratic_env demo_argv))
   \<and> \<not> list_all (\<lambda>v. number_le v (Finite 100))
           (reported ''Bundling: '' (events erratic_env demo_argv))"
proof -
  have r: "reported ''Bundling: '' (events erratic_env demo_argv)
             = map (\<lambda>p. Math_round (js_multiply p 100))
                 (fst (bundleProject erratic_env (entryPoint_of ''/tmp/remotion-1'')))"
    by (rule sample_staged(3) [where cfg = demo_config])
       (simp_all add: demo_env_simps other_envs)
  have p: "Math_round (js_multiply (1 / 2) 100) = Finite 50"
    "Math_round (js_multiply (1 / 4) 100) = Finite 25"
    "Math_round (js_multiply (3 / 2) 100) = Finite 150"
    by (simp_all add: double_eval)
  show ?thesis
    unfolding r by (simp add: other_envs demo_entry p)
qed

text \<open>
  Claim C5, amended.  A run that gets as far as the bundling reports under
  \<^verbatim>\<open>Bundling:\<close> exactly the values that the bundler delivers for the entry point of its
  staging directory, each as the percentage \<^verbatim>\<open>Math.round(p * 100)\<close> (the product being
  the double that JavaScript computes), in the order of delivery; a run that gets as far
  as the rendering reports under \<^verbatim>\<open>Rendering:\<close> exactly the values that \<^verbatim>\<open>renderMedia\<close>
  delivers for the options of its call, in the same way.  A run that fails before the
  phase reports nothing under its label.  So the reported percentages never decrease when
  the delivered values never decrease, and are whole numbers between 0 and 100 when the
  delivered values lie between 0 and 1.
\<close>

theorem progress_reported_as_delivered:
  "(parseArgs argv = Inr args \<and> truthy (inputPath_of args)
      \<and> resolve_value e (inputPath_of args) = Inr a \<and> validateTsxFile e a = None
      \<and> outputPath_of e args a = Inr out \<and> extractCompositionConfig e a = Inr cfg
      \<and> snd (ensureBrowser e) = None \<and> createTempProject e a cfg = Inr dir
     \<longrightarrow> reported ''Bundling: '' (events e argv)
           = map (\<lambda>p. Math_round (js_multiply p 100)) (fst (bundleProject e (entryPoint_of dir)))
         \<and> (snd (bundleProject e (entryPoint_of dir)) = Inr loc
              \<and> selectComposition e loc (config_id cfg) = Inr selected
            \<longrightarrow> reported ''Rendering: '' (events e argv)
                  = map (\<lambda>p. Math_round (js_multiply p 100))
                      (fst (renderMedia e (render_options_of cfg selected loc out)))))
   \<and> (failure_of e argv = Some (ph, err) \<and> ph \<noteq> Bundling \<and> ph \<noteq> Selecting \<and> ph \<noteq> Rendering
        \<longrightarrow> reported ''Bundling: '' (events e argv) = [])
   \<and> (failure_of e argv = Some (ph, err) \<and> ph \<noteq> Rendering
        \<longrightarrow> reported ''Rendering: '' (events e argv) = [])
   \<and> ((\<forall>entry. sorted (fst (bundleProject e entry)))
        \<longrightarrow> sorted_wrt number_le (reported ''Bundling: '' (events e argv)))
   \<and> ((\<forall>opts. sorted (fst (renderMedia e opts)))
        \<longrightarrow> sorted_wrt number_le (reported ''Rendering: '' (events e argv)))
   \<and> ((\<forall>entry. \<forall>p\<in>set (fst (bundleProject e entry)). 0 \<le> p \<and> p \<le> 1)
        \<longrightarrow> (\<forall>v\<in>set (reported ''Bundling: '' (events e argv)).
               \<exists>n. v = Finite (of_int n) \<and> 0 \<le> n \<and> n \<le> 100))
   \<and> ((\<forall>opts. \<forall>p\<in>set (fst (renderMedia e opts)). 0 \<le> p \<and> p \<le> 1)
        \<longrightarrow> (\<forall>v\<in>set (reported ''Rendering: '' (events e argv)).
               \<exists>n. v = Finite (of_int n) \<and> 0 \<le> n \<and> n \<le> 100))"
proof -
  note b = reported_bundling [of e argv]
  note r = reported_rendering [of e argv]
  have bound: "\<And>ps. \<forall>p\<in>set ps. 0 \<le> p \<and> p \<le> 1 \<Longrightarrow>
      \<forall>v\<in>set (map (\<lambda>p. Math_round (js_multiply p 100)) ps).
         \<exists>n. v = Finite (of_int n) \<and> 0 \<le> n \<and> n \<le> 100"
    using percent_bounds by auto
  show ?thesis
  proof (intro conjI impI)
    assume h: "parseArgs argv = Inr args \<and> truthy (inputPath_of args)
      \<and> resolve_value e (inputPath_of args) = Inr a \<and> validateTsxFile e a = None
      \<and> outputPath_of e args a = Inr out \<and> extractCompositionConfig e a = Inr cfg
      \<and> snd (ensureBrowser e) = None \<and> createTempProject e a cfg = Inr dir"
    then show "reported ''Bundling: '' (events e argv)
           = map (\<lambda>p. Math_round (js_multiply p 100)) (fst (bundleProject e (entryPoint_of dir)))"
      by (intro reach_staging(3) [where args = args and a = a and out = out and cfg = cfg])
         simp_all
    assume "snd (bundleProject e (entryPoint_of dir)) = Inr loc
              \<and> selectComposition e loc (config_id cfg) = Inr selected"
    with h show "reported ''Rendering: '' (events e argv)
                  = map (\<lambda>p. Math_round (js_multiply p 100))
                      (fst (renderMedia e (render_options_of cfg selected loc out)))"
      by (intro reach_rendering(2) [where args = args and a = a and dir = dir]) simp_all
  next
    assume "failure_of e argv = Some (ph, err) \<and> ph \<noteq> Bundling \<and> ph \<noteq> Selecting \<and> ph \<noteq> Rendering"
    then show "reported ''Bundling: '' (events e argv) = []"
      using reported_early(1) [of e argv ph err] by simp
  next
    assume "failure_of e argv = Some (ph, err) \<and> ph \<noteq> Rendering"
    then show "reported ''Rendering: '' (events e argv) = []"
      using reported_early(2) [of e argv ph err] by simp
  next
    assume "\<forall>entry. sorted (fst (bundleProject e entry))"
    with b show "sorted_wrt number_le (reported ''Bundling: '' (events e argv))"
      by (auto simp: sorted_percent)
  next
    assume "\<forall>opts. sorted (fst (renderMedia e opts))"
    with r show "sorted_wrt number_le (reported ''Rendering: '' (events e argv))"
      by (auto simp: sorted_percent)
  next
    assume h: "\<forall>entry. \<forall>p\<in>set (fst (bundleProject e entry)). 0 \<le> p \<and> p \<le> 1"
    from b show "\<forall>v\<in>set (reported ''Bundling: '' (events e argv)).
                   \<exists>n. v = Finite (of_int n) \<and> 0 \<le> n \<and> n \<le> 100"
    proof
      assume "reported ''Bundling: '' (events e argv) = []"
      then show ?thesis by simp
    next
      assume "\<exists>dir. reported ''Bundling: '' (events e argv)
            = map (\<lambda>p. Math_round (js_multiply p 100)) (fst (bundleProject e (entryPoint_of dir)))"
      then obtain dir where d: "reported ''Bundling: '' (events e argv)
            = map (\<lambda>p. Math_round (js_multiply p 100)) (fst (bundleProject e (entryPoint_of dir)))"
        by blast
      show ?thesis unfolding d using h by (intro bound) blast
    qed
  next
    assume h: "\<forall>opts. \<forall>p\<in>set (fst (renderMedia e opts)). 0 \<le> p \<and> p \<le> 1"
    from r show "\<forall>v\<in>set (reported ''Rendering: '' (events e argv)).
                   \<exists>n. v = Finite (of_int n) \<and> 0 \<le> n \<and> n \<le> 100"
    proof
      assume "reported ''Rendering: '' (events e argv) = []"
      then show ?thesis by simp
    next
      assume "\<exists>opts. reported ''Rendering: '' (events e argv)
            = map (\<lambda>p. Math_round (js_multiply p 100)) (fst (renderMedia e opts))"
      then obtain opts where d: "reported ''Rendering: '' (events e argv)
            = map (\<lambda>p. Math_round (js_multiply p 100)) (fst (renderMedia e opts))"
        by blast
      show ?thesis unfolding d using h by (intro bound) blast
    qed
  qed
qed

theorem progress_reported_as_delivered_witness:
  "reported ''Bundling: '' (events demo_env demo_argv) = [Finite 0, Finite 50, Finite 100]
   \<and> reported ''Rendering: '' (events demo_env demo_argv) = [Finite 50, Finite 100]
   \<and> sorted_wrt number_le (reported ''Bundling: '' (events demo_env demo_argv))
   \<and> sorted_wrt number_le (reported ''Rendering: '' (events demo_env demo_argv))
   \<and> list_all (\<lambda>v. number_le (Finite 0) v \<and> number_le v (Finite 100))
       (reported ''Bundling: '' (events demo_env demo_argv))
   \<and> list_all (\<lambda>v. number_le (Finite 0) v \<and> number_le v (Finite 100))
       (reported ''Rendering: '' (events demo_env demo_argv))
   \<and> failure_of no_fps_env demo_argv = Some (Extracting, ConfigExtractionError ''fps'')
   \<and> reported ''Bundling: '' (events no_fps_env demo_argv) = []
   \<and> reported ''Rendering: '' (events no_fps_env demo_argv) = []"
proof -
  define sel where "sel = \<lparr>comp_id = ''X'', comp_durationInFrames = Finite 1, comp_fps = 1,
                             comp_width = 1, comp_height = 1, comp_props = ''{}''\<rparr>"
  have p: "Math_round (js_multiply 0 100) = Finite 0"
    "Math_round (js_multiply (1 / 2) 100) = Finite 50"
    "Math_round (js_multiply 1 100) = Finite 100"
    by (simp_all add: double_eval)
  have h: "parseArgs demo_argv = Inr [''input'' \<mapsto> JStr ''demo.tsx'']"
    "truthy (inputPath_of [''input'' \<mapsto> JStr ''demo.tsx''])"
    "resolve_value demo_env (inputPath_of [''input'' \<mapsto> JStr ''demo.tsx'']) = Inr ''/home/u/demo.tsx''"
    "validateTsxFile demo_env ''/home/u/demo.tsx'' = None"
    "outputPath_of demo_env [''input'' \<mapsto> JStr ''demo.tsx''] ''/home/u/demo.tsx''
       = Inr ''/home/u/demo_2026-11-02T09-05-07.mp4''"
    "extractCompositionConfig demo_env ''/home/u/demo.tsx'' = Inr demo_config"
    "snd (ensureBrowser demo_env) = None"
    "createTempProject demo_env ''/home/u/demo.tsx'' demo_config = Inr ''/tmp/remotion-1''"
    "snd (bundleProject demo_env (entryPoint_of ''/tmp/remotion-1'')) = Inr ''/tmp/bundle''"
    "selectComposition demo_env ''/tmp/bundle'' (config_id demo_config) = Inr sel"
    by (simp_all add: demo_start sel_def demo_config_def)
  note t = progress_reported_as_delivered
    [of demo_argv "[''input'' \<mapsto> JStr ''demo.tsx'']" demo_env "''/home/u/demo.tsx''"
        "''/home/u/demo_2026-11-02T09-05-07.mp4''" demo_config "''/tmp/remotion-1''"
        "''/tmp/bundle''" sel]
  from t h have b: "reported ''Bundling: '' (events demo_env demo_argv)
      = map (\<lambda>p. Math_round (js_multiply p 100))
          (fst (bundleProject demo_env (entryPoint_of ''/tmp/remotion-1'')))"
    by blast
  from t h have r: "reported ''Rendering: '' (events demo_env demo_argv)
      = map (\<lambda>p. Math_round (js_multiply p 100))
          (fst (renderMedia demo_env
             (render_options_of demo_config sel ''/tmp/bundle''
                ''/home/u/demo_2026-11-02T09-05-07.mp4'')))"
    by blast
  have b': "reported ''Bundling: '' (events demo_env demo_argv) = [Finite 0, Finite 50, Finite 100]"
    unfolding b by (simp add: demo_env_simps p)
  have r': "reported ''Rendering: '' (events demo_env demo_argv) = [Finite 50, Finite 100]"
    unfolding r by (simp add: demo_env_simps p)
  have sb: "\<forall>entry. sorted (fst (bundleProject demo_env entry))"
    and sr: "\<forall>opts. sorted (fst (renderMedia demo_env opts))"
    and bb: "\<forall>entry. \<forall>p\<in>set (fst (bundleProject demo_env entry)). 0 \<le> p \<and> p \<le> 1"
    and br: "\<forall>opts. \<forall>p\<in>set (fst (renderMedia demo_env opts)). 0 \<le> p \<and> p \<le> 1"
    by (simp_all add: demo_env_simps)
  from t sb sr bb br
  have s: "sorted_wrt number_le (reported ''Bundling: '' (events demo_env demo_argv))"
    "sorted_wrt number_le (reported ''Rendering: '' (events demo_env demo_argv))"
    and w: "\<forall>v\<in>set (reported ''Bundling: '' (events demo_env demo_argv)).
              \<exists>n. v = Finite (of_int n) \<and> 0 \<le> n \<and> n \<le> 100"
    "\<forall>v\<in>set (reported ''Rendering: '' (events demo_env demo_argv)).
              \<exists>n. v = Finite (of_int n) \<and> 0 \<le> n \<and> n \<le> 100"
    by blast+
  have range: "\<And>vs. \<forall>v\<in>set vs. \<exists>n::int. v = Finite (of_int n) \<and> 0 \<le> n \<and> n \<le> 100
      \<Longrightarrow> list_all (\<lambda>v. number_le (Finite 0) v \<and> number_le v (Finite 100)) vs"
    by (auto simp: list_all_iff)
  have f: "failure_of no_fps_env demo_argv = Some (Extracting, ConfigExtractionError ''fps'')"
    by (simp add: failure_of_def demo_start other_envs extract_fields_def required_fields_def
          field_ok_def no_fps_fields_def)
  from progress_reported_as_delivered
    [of demo_argv _ no_fps_env _ _ _ _ _ _ Extracting "ConfigExtractionError ''fps''"] f
  have e: "reported ''Bundling: '' (events no_fps_env demo_argv) = []"
    "reported ''Rendering: '' (events no_fps_env demo_argv) = []"
    by simp_all
  show ?thesis
    using b' r' s range [OF w(1)] range [OF w(2)] f e by simp
qed

text \<open>
  Claim C8.  The configuration that the resolution override returns has, in
  \<^verbatim>\<open>resolve.modules\<close> and in \<^verbatim>\<open>resolveLoader.modules\<close>, the renderer's own
  \<^verbatim>\<open>node_modules\<close> directory first, followed by the entries that were there before, in
  their order (by \<^verbatim>\<open>node_modules\<close> alone where there was no list); the other settings
  are unchanged.  Every call of the bundler that a run makes is given the override for the
  directory \<^verbatim>\<open>node_modules\<close> beside the script.
\<close>

theorem resolution_override_prepends:
  "(resolve cfg = Some ro \<and> modules ro = Some ms
      \<longrightarrow> resolve (webpackOverride r cfg) = Some (ro\<lparr>modules := Some (r # ms)\<rparr>))
   \<and> (resolve cfg = Some ro \<and> modules ro = None
      \<longrightarrow> resolve (webpackOverride r cfg) = Some (ro\<lparr>modules := Some [r, ''node_modules'']\<rparr>))
   \<and> (resolve cfg = None
      \<longrightarrow> resolve (webpackOverride r cfg)
            = Some \<lparr>modules = Some [r, ''node_modules''], other_options = []\<rparr>)
   \<and> (resolveLoader cfg = Some lo \<and> modules lo = Some ls
      \<longrightarrow> resolveLoader (webpackOverride r cfg) = Some (lo\<lparr>modules := Some (r # ls)\<rparr>))
   \<and> (resolveLoader cfg = Some lo \<and> modules lo = None
      \<longrightarrow> resolveLoader (webpackOverride r cfg) = Some (lo\<lparr>modules := Some [r, ''node_modules'']\<rparr>))
   \<and> (resolveLoader cfg = None
      \<longrightarrow> resolveLoader (webpackOverride r cfg)
            = Some \<lparr>modules = Some [r, ''node_modules''], other_options = []\<rparr>)
   \<and> other_settings (webpackOverride r cfg) = other_settings cfg
   \<and> (Call_bundle entry dir \<in> set (events e argv)
      \<longrightarrow> dir = path_resolve (cwd e) [script_dirname e, ''node_modules''])"
  using bundle_call_directory [of entry dir e argv]
  by (simp add: webpackOverride_def or_empty_def or_default_modules_def Let_def
        rendererNodeModules_of_def)

theorem resolution_override_prepends_witness:
  "resolve (webpackOverride ''/opt/renderer/node_modules'' sample_webpack_config)
     = Some \<lparr>modules = Some [''/opt/renderer/node_modules'', ''src'', ''node_modules''],
             other_options = [(''extensions'', ''.tsx'')]\<rparr>
   \<and> resolveLoader (webpackOverride ''/opt/renderer/node_modules'' sample_webpack_config)
     = Some \<lparr>modules = Some [''/opt/renderer/node_modules'', ''node_modules''],
             other_options = []\<rparr>
   \<and> Call_bundle ''/tmp/remotion-1/src/index.ts'' ''/opt/renderer/node_modules''
       \<in> set (events demo_env demo_argv)"
proof -
  have r: "rendererNodeModules_of demo_env = ''/opt/renderer/node_modules''"
    by (simp add: rendererNodeModules_of_def demo_env_simps path_eval Let_def)
  have "Call_bundle (entryPoint_of ''/tmp/remotion-1'') (rendererNodeModules_of demo_env)
          \<in> set (events demo_env demo_argv)"
    by (rule sample_bundled [where cfg = demo_config]) (simp_all add: demo_env_simps)
  then have c: "Call_bundle ''/tmp/remotion-1/src/index.ts'' ''/opt/renderer/node_modules''
       \<in> set (events demo_env demo_argv)"
    by (simp add: r demo_entry)
  have s: "resolve sample_webpack_config
             = Some \<lparr>modules = Some [''src'', ''node_modules''],
                     other_options = [(''extensions'', ''.tsx'')]\<rparr>"
    "resolveLoader sample_webpack_config = None"
    by (simp_all add: sample_webpack_config_def)
  note t = resolution_override_prepends
    [of sample_webpack_config
        "\<lparr>modules = Some [''src'', ''node_modules''], other_options = [(''extensions'', ''.tsx'')]\<rparr>"
        "[''src'', ''node_modules'']" "''/opt/renderer/node_modules''"
        undefined undefined "''/tmp/remotion-1/src/index.ts''" "''/opt/renderer/node_modules''"
        demo_env demo_argv]
  from t s have w: "resolve (webpackOverride ''/opt/renderer/node_modules'' sample_webpack_config)
     = Some \<lparr>modules = Some [''/opt/renderer/node_modules'', ''src'', ''node_modules''],
             other_options = [(''extensions'', ''.tsx'')]\<rparr>"
    "resolveLoader (webpackOverride ''/opt/renderer/node_modules'' sample_webpack_config)
     = Some \<lparr>modules = Some [''/opt/renderer/node_modules'', ''node_modules''],
             other_options = []\<rparr>"
    by simp_all
  show ?thesis using w c by simp
qed

subsection \<open>Diagnostics\<close>

text \<open>
  Claim C7 says that every failure whose message has the shape
  \<^verbatim>\<open>Can't resolve '<module>'\<close> gets a hint naming the module.  When the bundler fails with
  the message \<^verbatim>\<open>Can't resolve 'foo-bar'\<close> alone, without the words
  \<^verbatim>\<open>Module not found\<close>, the run prints neither the hint naming \<^verbatim>\<open>foo-bar\<close> nor the
  generic dependency hint.
\<close>

theorem bare_unresolved_message_gets_no_hint:
  "failure_of bare_unresolved_env demo_argv
     = Some (Bundling, JsError ''Error'' (cant_resolve @ ''foo-bar'' @ [CHR 0x27]) [])
   \<and> module_hint ''foo-bar'' \<notin> set (events bare_unresolved_env demo_argv)
   \<and> generic_dependency_hint \<notin> set (events bare_unresolved_env demo_argv)"
proof -
  note f = sample_bundling_failure [of bare_unresolved_env demo_config "''/tmp/remotion-1''"
      "JsError ''Error'' cant_resolve_foo_bar []"]
  have h: "hints cant_resolve_foo_bar = []"
    by (simp add: hints_def includes_eval)
  have c: "catch_events [''input'' \<mapsto> JStr ''demo.tsx''] (JsError ''Error'' cant_resolve_foo_bar [])
             = [ClearProgress, ErrorMsg [T (''Render failed: '' @ cant_resolve_foo_bar)]]"
    by (simp add: catch_events_def h prop_get_def)
  have "failure_of bare_unresolved_env demo_argv
     = Some (Bundling, JsError ''Error'' cant_resolve_foo_bar [])"
    by (rule f(1)) (simp_all add: demo_env_simps other_envs)
  moreover have "module_hint ''foo-bar'' \<notin> set (events bare_unresolved_env demo_argv)"
    by (subst f(2)) (simp_all add: demo_env_simps other_envs c module_hint_def)
  moreover have "generic_dependency_hint \<notin> set (events bare_unresolved_env demo_argv)"
    by (subst f(3)) (simp_all add: demo_env_simps other_envs c generic_dependency_hint_def)
  ultimately show ?thesis by (simp add: cant_resolve_foo_bar_def)
qed

text \<open>
  Claim C7, amended.  Take a failure inside the \<^verbatim>\<open>try\<close> block of \<open>main\<close> (the browser
  check, the staging, the bundling, the selection or the rendering).  When its message
  contains \<^verbatim>\<open>Module not found\<close> and does not contain \<^verbatim>\<open>compositionConfig\<close>, the run
  prints the hint that names a module as not installed in the renderer for the leftmost
  place of the message that has the shape \<^verbatim>\<open>Can't resolve '<module>'\<close>, with a module
  name that is not empty and has no quote; when the message has this shape nowhere, the
  run prints the generic dependency hint.  When the message does not contain
  \<^verbatim>\<open>Module not found\<close>, or contains \<^verbatim>\<open>compositionConfig\<close>, the run prints neither of the
  two hints: a line with the text of one of them can only be the stack that
  \<^verbatim>\<open>--verbose\<close> prints.
\<close>

theorem unresolved_module_hint:
  assumes "failure_of e argv = Some (ph, err)" and "in_try_block ph"
  shows "(str_includes (message err) ''Module not found''
            \<and> \<not> str_includes (message err) ''compositionConfig''
            \<and> message err = pre @ cant_resolve @ name @ [CHR 0x27] @ post
            \<and> name \<noteq> [] \<and> CHR 0x27 \<notin> set name
            \<and> (\<forall>pre1 name1 post1.
                  message err = pre1 @ cant_resolve @ name1 @ [CHR 0x27] @ post1
                  \<and> name1 \<noteq> [] \<and> CHR 0x27 \<notin> set name1
                  \<longrightarrow> length pre \<le> length pre1)
          \<longrightarrow> module_hint name \<in> set (events e argv))
       \<and> (str_includes (message err) ''Module not found''
            \<and> \<not> str_includes (message err) ''compositionConfig''
            \<and> message err = pre @ cant_resolve @ name @ [CHR 0x27] @ post
            \<and> name \<noteq> [] \<and> CHR 0x27 \<notin> set name
          \<longrightarrow> (\<exists>found pre' post'. module_hint found \<in> set (events e argv)
                 \<and> message err = pre' @ cant_resolve @ found @ [CHR 0x27] @ post'))
       \<and> (str_includes (message err) ''Module not found''
            \<and> \<not> str_includes (message err) ''compositionConfig''
            \<and> \<not> (\<exists>found pre' post'. message err = pre' @ cant_resolve @ found @ [CHR 0x27] @ post'
                 \<and> found \<noteq> [] \<and> CHR 0x27 \<notin> set found)
          \<longrightarrow> generic_dependency_hint \<in> set (events e argv))
       \<and> ((\<not> str_includes (message err) ''Module not found''
              \<or> str_includes (message err) ''compositionConfig'')
            \<and> parseArgs argv = Inr args
            \<and> (ev = module_hint n \<or> ev = generic_dependency_hint)
            \<and> ev \<in> set (events e argv)
          \<longrightarrow> truthy (prop_get args ''verbose'') \<and> ev = ConsoleLog [T (stack err)])"
proof (intro conjI impI)
  note sub = hints_in_events [OF assms(1,2)]
  {
    assume a: "str_includes (message err) ''Module not found''
            \<and> \<not> str_includes (message err) ''compositionConfig''
            \<and> message err = pre @ cant_resolve @ name @ [CHR 0x27] @ post
            \<and> name \<noteq> [] \<and> CHR 0x27 \<notin> set name
            \<and> (\<forall>pre1 name1 post1.
                  message err = pre1 @ cant_resolve @ name1 @ [CHR 0x27] @ post1
                  \<and> name1 \<noteq> [] \<and> CHR 0x27 \<notin> set name1
                  \<longrightarrow> length pre \<le> length pre1)"
    then have "match_module (message err) = Some name"
      by (intro match_module_leftmost_shape [where pre = pre and post = post]) blast+
    moreover from a have "hints (message err)
        = (case match_module (message err) of Some name \<Rightarrow> [module_hint name]
           | None \<Rightarrow> [generic_dependency_hint]) @ supported_libraries"
      by (intro hints_module_not_found) blast+
    ultimately show "module_hint name \<in> set (events e argv)" using sub by auto
  next
    assume a: "str_includes (message err) ''Module not found''
            \<and> \<not> str_includes (message err) ''compositionConfig''
            \<and> message err = pre @ cant_resolve @ name @ [CHR 0x27] @ post
            \<and> name \<noteq> [] \<and> CHR 0x27 \<notin> set name"
    then have h: "hints (message err)
        = (case match_module (message err) of Some name \<Rightarrow> [module_hint name]
           | None \<Rightarrow> [generic_dependency_hint]) @ supported_libraries"
      by (intro hints_module_not_found) blast+
    from a have "match_module (message err) \<noteq> None"
      using match_module_finds [of name pre post] by auto
    then obtain found where f: "match_module (message err) = Some found" by auto
    from match_module_Some [OF f] obtain pre' post'
      where "message err = pre' @ cant_resolve @ found @ [CHR 0x27] @ post'" by blast
    moreover from f h sub have "module_hint found \<in> set (events e argv)" by auto
    ultimately show "\<exists>found pre' post'. module_hint found \<in> set (events e argv)
                 \<and> message err = pre' @ cant_resolve @ found @ [CHR 0x27] @ post'"
      by blast
  next
    assume a: "str_includes (message err) ''Module not found''
            \<and> \<not> str_includes (message err) ''compositionConfig''
            \<and> \<not> (\<exists>found pre' post'. message err = pre' @ cant_resolve @ found @ [CHR 0x27] @ post'
                 \<and> found \<noteq> [] \<and> CHR 0x27 \<notin> set found)"
    then have h: "hints (message err)
        = (case match_module (message err) of Some name \<Rightarrow> [module_hint name]
           | None \<Rightarrow> [generic_dependency_hint]) @ supported_libraries"
      by (intro hints_module_not_found) blast+
    have "match_module (message err) = None"
    proof (rule ccontr)
      assume "match_module (message err) \<noteq> None"
      then obtain found where "match_module (message err) = Some found" by auto
      from match_module_Some [OF this] a show False by blast
    qed
    with h sub show "generic_dependency_hint \<in> set (events e argv)" by auto
  }
  assume a: "(\<not> str_includes (message err) ''Module not found''
              \<or> str_includes (message err) ''compositionConfig'')
            \<and> parseArgs argv = Inr args
            \<and> (ev = module_hint n \<or> ev = generic_dependency_hint)
            \<and> ev \<in> set (events e argv)"
  then have "ev \<notin> set (hints (message err))"
    using no_dependency_hint [of "message err"] by blast
  moreover from a have "ev \<in> set (hints (message err))
           \<or> (truthy (prop_get args ''verbose'') \<and> ev = ConsoleLog [T (stack err)])"
    by (intro hint_line_origin [OF assms, where n = n]) blast+
  ultimately show "truthy (prop_get args ''verbose'')" and "ev = ConsoleLog [T (stack err)]"
    by blast+
qed

theorem unresolved_module_hint_witness:
  "failure_of module_not_found_env demo_argv
     = Some (Bundling,
             JsError ''Error''
               (''Module not found: Error: '' @ cant_resolve @ ''foo-bar'' @ [CHR 0x27]
                  @ '' in /tmp/remotion-1/src'') [])
   \<and> module_hint ''foo-bar'' \<in> set (events module_not_found_env demo_argv)
   \<and> failure_of unnamed_dependency_env demo_argv
       = Some (Bundling, JsError ''Error'' ''Module not found: Error: unknown dependency'' [])
   \<and> generic_dependency_hint \<in> set (events unnamed_dependency_env demo_argv)
   \<and> failure_of empty_name_first_env demo_argv
       = Some (Bundling,
               JsError ''Error''
                 (''Module not found: Error: '' @ cant_resolve @ [CHR 0x27]
                    @ '' and '' @ cant_resolve @ ''b'' @ [CHR 0x27]) [])
   \<and> module_hint ''b'' \<in> set (events empty_name_first_env demo_argv)
   \<and> failure_of bare_unresolved_env demo_argv
       = Some (Bundling, JsError ''Error'' (cant_resolve @ ''foo-bar'' @ [CHR 0x27]) [])
   \<and> module_hint ''foo-bar'' \<notin> set (events bare_unresolved_env demo_argv)
   \<and> generic_dependency_hint \<notin> set (events bare_unresolved_env demo_argv)"
proof -
  define m where "m = ''Module not found: Error: '' @ cant_resolve @ ''foo-bar'' @ [CHR 0x27]
                  @ '' in /tmp/remotion-1/src''"
  define u where "u = ''Module not found: Error: unknown dependency''"
  define c where "c = cant_resolve @ ''foo-bar'' @ [CHR 0x27]"
  have f1: "failure_of module_not_found_env demo_argv = Some (Bundling, JsError ''Error'' m [])"
    by (rule sample_bundling_failure(1) [where cfg = demo_config and dir = "''/tmp/remotion-1''"])
       (simp_all add: demo_env_simps other_envs m_def cant_resolve_foo_bar_def)
  have f2: "failure_of unnamed_dependency_env demo_argv = Some (Bundling, JsError ''Error'' u [])"
    by (rule sample_bundling_failure(1) [where cfg = demo_config and dir = "''/tmp/remotion-1''"])
       (simp_all add: demo_env_simps other_envs u_def)
  have f4: "failure_of empty_name_first_env demo_argv
              = Some (Bundling, JsError ''Error'' empty_name_first [])"
    by (rule sample_bundling_failure(1) [where cfg = demo_config and dir = "''/tmp/remotion-1''"])
       (simp_all add: demo_env_simps other_envs)
  have n4: "\<not> str_includes empty_name_first ''compositionConfig''"
    and y4: "str_includes empty_name_first ''Module not found''"
    by (simp_all add: empty_name_first_def includes_eval)
  have shape4: "empty_name_first
      = (''Module not found: Error: '' @ cant_resolve @ [CHR 0x27] @ '' and '')
          @ cant_resolve @ ''b'' @ [CHR 0x27] @ []"
    by (simp add: empty_name_first_def)
  have len4: "length (''Module not found: Error: '' @ cant_resolve @ [CHR 0x27] @ '' and '') = 46"
    by (simp add: cant_resolve_def)
  have least4: "\<forall>pre1 name1 post1.
                  empty_name_first = pre1 @ cant_resolve @ name1 @ [CHR 0x27] @ post1
                  \<and> name1 \<noteq> [] \<and> CHR 0x27 \<notin> set name1
                  \<longrightarrow> length (''Module not found: Error: '' @ cant_resolve @ [CHR 0x27] @ '' and '')
                        \<le> length pre1"
    unfolding len4 using shape_not_before [OF empty_name_first_skipped] by blast
  have f3: "failure_of bare_unresolved_env demo_argv = Some (Bundling, JsError ''Error'' c [])"
    by (rule sample_bundling_failure(1) [where cfg = demo_config and dir = "''/tmp/remotion-1''"])
       (simp_all add: demo_env_simps other_envs c_def cant_resolve_foo_bar_def)
  have t: "in_try_block Bundling" by simp
  have n1: "\<not> str_includes m ''compositionConfig''" and y1: "str_includes m ''Module not found''"
    by (simp_all add: m_def includes_eval)
  have n2: "\<not> str_includes u ''compositionConfig''" and y2: "str_includes u ''Module not found''"
    by (simp_all add: u_def includes_eval)
  have n3: "\<not> str_includes c ''Module not found''"
    by (simp add: c_def includes_eval)
  have first: "\<forall>i<length ''Module not found: Error: ''. \<not> startsWith (drop i m) cant_resolve"
    unfolding m_def by (rule no_earlier_start) (simp_all add: cant_resolve_def)
  have shape: "m = ''Module not found: Error: '' @ cant_resolve @ ''foo-bar'' @ [CHR 0x27]
                  @ '' in /tmp/remotion-1/src''"
    by (simp add: m_def)
  have least: "\<forall>pre1 name1 post1.
                  m = pre1 @ cant_resolve @ name1 @ [CHR 0x27] @ post1
                  \<and> name1 \<noteq> [] \<and> CHR 0x27 \<notin> set name1
                  \<longrightarrow> length ''Module not found: Error: '' \<le> length pre1"
  proof (intro allI impI)
    fix pre1 name1 post1
    assume "m = pre1 @ cant_resolve @ name1 @ [CHR 0x27] @ post1
                  \<and> name1 \<noteq> [] \<and> CHR 0x27 \<notin> set name1"
    then have "drop (length pre1) m = cant_resolve @ name1 @ [CHR 0x27] @ post1" by simp
    then have "startsWith (drop (length pre1) m) cant_resolve"
      by (simp only: startsWith_append)
    with first show "length ''Module not found: Error: '' \<le> length pre1"
      by (meson not_le)
  qed
  have none: "\<not> (\<exists>found pre' post'. u = pre' @ cant_resolve @ found @ [CHR 0x27] @ post'
                 \<and> found \<noteq> [] \<and> CHR 0x27 \<notin> set found)"
  proof
    assume "\<exists>found pre' post'. u = pre' @ cant_resolve @ found @ [CHR 0x27] @ post'
                 \<and> found \<noteq> [] \<and> CHR 0x27 \<notin> set found"
    then obtain found pre' post' where "u = pre' @ cant_resolve @ found @ [CHR 0x27] @ post'"
      by blast
    then have "CHR 0x27 \<in> set u" by simp
    then show False by (simp add: u_def)
  qed
  have quiet: "\<not> truthy (prop_get [''input'' \<mapsto> JStr ''demo.tsx''] ''verbose'')"
    by (simp add: prop_get_def)
  from unresolved_module_hint [OF f1 t, of "''Module not found: Error: ''" "''foo-bar''"
        "'' in /tmp/remotion-1/src''"] n1 y1 least shape
  have a: "module_hint ''foo-bar'' \<in> set (events module_not_found_env demo_argv)"
    by simp
  from unresolved_module_hint [OF f2 t] n2 y2 none
  have b: "generic_dependency_hint \<in> set (events unnamed_dependency_env demo_argv)"
    by simp
  have nb: "''b'' \<noteq> []" "CHR 0x27 \<notin> set ''b''" by simp_all
  note t4 = unresolved_module_hint [OF f4 t,
        of "''Module not found: Error: '' @ cant_resolve @ [CHR 0x27] @ '' and ''" "''b''" "[]",
        unfolded js_error.sel]
  from t4 n4 y4 least4 shape4 nb
  have a4: "module_hint ''b'' \<in> set (events empty_name_first_env demo_argv)"
    by blast
  from unresolved_module_hint [OF f3 t, of _ _ _ "[''input'' \<mapsto> JStr ''demo.tsx'']"
        "module_hint ''foo-bar''" "''foo-bar''"] n3 quiet demo_args
  have d1: "module_hint ''foo-bar'' \<notin> set (events bare_unresolved_env demo_argv)"
    by auto
  from unresolved_module_hint [OF f3 t, of _ _ _ "[''input'' \<mapsto> JStr ''demo.tsx'']"
        generic_dependency_hint] n3 quiet demo_args
  have d2: "generic_dependency_hint \<notin> set (events bare_unresolved_env demo_argv)"
    by auto
  show ?thesis
    using f1 f2 f3 f4 a b a4 d1 d2 by (simp add: m_def u_def c_def empty_name_first_def)
qed

subsection \<open>The default output path\<close>

text \<open>
  Claim C4.  Take an input path that ends in \<^verbatim>\<open>.tsx\<close>, with the file name \<open>name.tsx\<close>,
  and a command line without a value for \<^verbatim>\<open>--output\<close>.  The input path resolves to
  \<open>dir/name.tsx\<close>, and the output path is \<open>dir/name_<timestamp>.mp4\<close> in the same directory,
  where the timestamp is the first 19 characters of the UTC ISO time (the date and the time
  to the second) with hyphens for the colons.  (For the file named \<^verbatim>\<open>.tsx\<close> alone, Node
  takes the whole name as the base name.)
\<close>

theorem default_output_path:
  assumes "cwd e \<noteq> []" and "hd (cwd e) = CHR ''/''" and "valid_time (clock e)"
    and "p = q @ name @ ''.tsx''" and "q = [] \<or> last q = CHR ''/''"
    and "CHR ''/'' \<notin> set name"
    and "\<not> truthy (prop_get args ''output'')"
  shows "\<exists>dir. path_resolve (cwd e) [p] = dir @ ''/'' @ name @ ''.tsx''
           \<and> outputPath_of e args (path_resolve (cwd e) [p])
               = Inr (dir @ ''/'' @ (if name = [] then ''.tsx'' else name)
                      @ ''_'' @ second_precision_timestamp (clock e) @ ''.mp4'')
           \<and> path_dirname (dir @ ''/'' @ (if name = [] then ''.tsx'' else name)
                      @ ''_'' @ second_precision_timestamp (clock e) @ ''.mp4'')
               = path_dirname (path_resolve (cwd e) [p])
           \<and> second_precision_timestamp (clock e)
               = replace_colon_period (take 19 (toISOString (clock e)))"
proof -
  define fname where "fname = name @ ''.tsx''"
  define base where "base = (if name = [] then ''.tsx'' else name)"
  define seg where "seg = base @ ''_'' @ second_precision_timestamp (clock e) @ ''.mp4''"
  have "length fname \<ge> 4" by (simp add: fname_def)
  then have "fname \<noteq> []" "fname \<noteq> ''.''" "fname \<noteq> ''..''" by auto
  moreover have nf: "CHR ''/'' \<notin> set fname" using assms(6) by (simp add: fname_def)
  ultimately have nfile: "normal_segment fname" by (simp add: normal_segment_def)
  have pf: "p = q @ fname" using assms(4) by (simp add: fname_def)
  from resolve_file [OF assms(1,2) pf assms(5) nfile]
  obtain segs where normal: "\<forall>s\<in>set segs. normal_segment s"
    and res: "path_resolve (cwd e) [p] = abs_path segs @ ''/'' @ fname"
    by blast
  have nb: "CHR ''/'' \<notin> set base" using assms(6) by (simp add: base_def)
  have nseg: "normal_segment seg"
    unfolding seg_def by (rule output_segment_normal [OF assms(3) nb])
  then have sne: "seg \<noteq> []" and ns: "CHR ''/'' \<notin> set seg" by (simp_all add: normal_segment_def)
  have gen: "generateOutputPath (abs_path segs @ ''/'' @ fname) (clock e) = abs_path segs @ ''/'' @ seg"
    using generateOutputPath_resolved [OF normal assms(6) assms(3)]
    by (simp add: fname_def seg_def base_def)
  have out: "outputPath_of e args (path_resolve (cwd e) [p]) = Inr (abs_path segs @ ''/'' @ seg)"
    using assms(7) gen by (simp add: outputPath_of_def res)
  have "path_dirname (abs_path segs @ ''/'' @ seg) = path_dirname (abs_path segs @ ''/'' @ fname)"
    using dirname_of_file [OF normal sne ns] dirname_of_file [OF normal \<open>fname \<noteq> []\<close> nf]
    by simp
  with res out timestamp_of_iso(2) [OF assms(3)]
  have "path_resolve (cwd e) [p] = abs_path segs @ ''/'' @ name @ ''.tsx''
           \<and> outputPath_of e args (path_resolve (cwd e) [p])
               = Inr (abs_path segs @ ''/'' @ (if name = [] then ''.tsx'' else name)
                      @ ''_'' @ second_precision_timestamp (clock e) @ ''.mp4'')
           \<and> path_dirname (abs_path segs @ ''/'' @ (if name = [] then ''.tsx'' else name)
                      @ ''_'' @ second_precision_timestamp (clock e) @ ''.mp4'')
               = path_dirname (path_resolve (cwd e) [p])
           \<and> second_precision_timestamp (clock e)
               = replace_colon_period (take 19 (toISOString (clock e)))"
    by (simp add: fname_def seg_def base_def)
  then show ?thesis by blast
qed

theorem default_output_path_witness:
  "path_resolve (cwd demo_env) [''demo.tsx''] = ''/home/u/demo.tsx''
   \<and> outputPath_of demo_env [''input'' \<mapsto> JStr ''demo.tsx''] ''/home/u/demo.tsx''
       = Inr ''/home/u/demo_2026-11-02T09-05-07.mp4''
   \<and> second_precision_timestamp (clock demo_env) = ''2026-11-02T09-05-07''"
proof -
  have c: "cwd demo_env = ''/home/u''" by (simp add: demo_env_def)
  have a: "path_resolve (cwd demo_env) [''demo.tsx''] = ''/home/u'' @ ''/'' @ ''demo'' @ ''.tsx''"
    by (simp add: c path_eval Let_def)
  have v: "valid_time (clock demo_env)" by (simp add: valid_time_def demo_env_def)
  have ts: "second_precision_timestamp (clock demo_env) = ''2026-11-02T09-05-07''"
    by (simp add: second_precision_timestamp_def demo_env_def pad_def digits.simps digit_char_def)
  have o: "\<not> truthy (prop_get [''input'' \<mapsto> JStr ''demo.tsx''] ''output'')"
    by (simp add: prop_get_def)
  from default_output_path [of demo_env "''demo.tsx''" "[]" "''demo''" "[''input'' \<mapsto> JStr ''demo.tsx'']"] c v o
  obtain dir where d: "path_resolve (cwd demo_env) [''demo.tsx''] = dir @ ''/'' @ ''demo'' @ ''.tsx''"
    and r: "outputPath_of demo_env [''input'' \<mapsto> JStr ''demo.tsx''] (path_resolve (cwd demo_env) [''demo.tsx''])
               = Inr (dir @ ''/'' @ ''demo'' @ ''_'' @ second_precision_timestamp (clock demo_env) @ ''.mp4'')"
    by auto
  from d a have "dir @ (''/'' @ ''demo'' @ ''.tsx'') = ''/home/u'' @ (''/'' @ ''demo'' @ ''.tsx'')"
    by (simp only: )
  then have "dir = ''/home/u''" by (simp only: append_same_eq)
  with r a ts show ?thesis by simp
qed


end
